theory Spec2Isabelle
  imports Complex_Main "HOL-Library.Sublist" "HOL-Library.Char_ord" "HOL-Library.List_Lexorder"
    "HOL-Library.Multiset"
begin

section \<open>Python strings\<close>

text \<open>
  A Python \<open>str\<close> is modelled as a \<open>string\<close>; a \<open>char\<close> stands for a code point
  below 256 (Latin-1), so the character classes below are Python's classes cut
  down to that range.  \<open>len\<close> is \<open>length\<close>, \<open>+\<close> is \<open>@\<close>, and a slice
  \<open>s[i:j]\<close> is \<open>take\<close>/\<open>drop\<close>.
\<close>

definition one_of :: "string \<Rightarrow> char \<Rightarrow> bool" where
  \<comment> \<open>a character class \<open>[...]\<close> given by its members\<close>
  "one_of s c = (c \<in> set s)"

definition none_of :: "string \<Rightarrow> char \<Rightarrow> bool" where
  \<comment> \<open>a negated character class \<open>[^...]\<close>\<close>
  "none_of s c = (c \<notin> set s)"

definition py_space :: "char \<Rightarrow> bool" where
  \<comment> \<open>\<open>str.isspace\<close>, also the class \<open>\s\<close> of \<open>re\<close> on \<open>str\<close> patterns\<close>
  "py_space = one_of [CHR 0x09, CHR 0x0A, CHR 0x0B, CHR 0x0C, CHR 0x0D, CHR 0x1C, CHR 0x1D,
                      CHR 0x1E, CHR 0x1F, CHR 0x20, CHR 0x85, CHR 0xA0]"

definition py_digit :: "char \<Rightarrow> bool" where
  \<comment> \<open>the class \<open>\d\<close>: the decimal digits (category Nd)\<close>
  "py_digit = one_of ''0123456789''"

definition py_isdigit :: "char \<Rightarrow> bool" where
  \<comment> \<open>\<open>str.isdigit\<close>: also the superscript digits\<close>
  "py_isdigit c = (py_digit c \<or> one_of [CHR 0xB2, CHR 0xB3, CHR 0xB9] c)"

definition ascii_upper :: "char \<Rightarrow> bool" where
  \<comment> \<open>the class \<open>[A-Z]\<close>\<close>
  "ascii_upper = one_of ''ABCDEFGHIJKLMNOPQRSTUVWXYZ''"

definition ascii_lower :: "char \<Rightarrow> bool" where
  \<comment> \<open>the class \<open>[a-z]\<close>\<close>
  "ascii_lower = one_of ''abcdefghijklmnopqrstuvwxyz''"

definition py_word :: "char \<Rightarrow> bool" where
  \<comment> \<open>the class \<open>\w\<close>: \<open>str.isalnum\<close> or the underscore\<close>
  "py_word c =
     (ascii_upper c \<or> ascii_lower c \<or> py_digit c \<or> c = CHR ''_'' \<or>
      one_of [CHR 0xAA, CHR 0xB2, CHR 0xB3, CHR 0xB5, CHR 0xB9, CHR 0xBA, CHR 0xBC, CHR 0xBD,
              CHR 0xBE, CHR 0xC0, CHR 0xC1, CHR 0xC2, CHR 0xC3, CHR 0xC4, CHR 0xC5, CHR 0xC6,
              CHR 0xC7, CHR 0xC8, CHR 0xC9, CHR 0xCA, CHR 0xCB, CHR 0xCC, CHR 0xCD, CHR 0xCE,
              CHR 0xCF, CHR 0xD0, CHR 0xD1, CHR 0xD2, CHR 0xD3, CHR 0xD4, CHR 0xD5, CHR 0xD6,
              CHR 0xD8, CHR 0xD9, CHR 0xDA, CHR 0xDB, CHR 0xDC, CHR 0xDD, CHR 0xDE, CHR 0xDF,
              CHR 0xE0, CHR 0xE1, CHR 0xE2, CHR 0xE3, CHR 0xE4, CHR 0xE5, CHR 0xE6, CHR 0xE7,
              CHR 0xE8, CHR 0xE9, CHR 0xEA, CHR 0xEB, CHR 0xEC, CHR 0xED, CHR 0xEE, CHR 0xEF,
              CHR 0xF0, CHR 0xF1, CHR 0xF2, CHR 0xF3, CHR 0xF4, CHR 0xF5, CHR 0xF6, CHR 0xF8,
              CHR 0xF9, CHR 0xFA, CHR 0xFB, CHR 0xFC, CHR 0xFD, CHR 0xFE, CHR 0xFF] c)"

definition lower_char :: "char \<Rightarrow> char" where
  \<comment> \<open>\<open>str.lower\<close> on one character: A-Z and the Latin-1 capitals C0-DE (but D7)\<close>
  "lower_char c =
     (let n = (of_char c :: nat) in
      if (0x41 \<le> n \<and> n \<le> 0x5A) \<or> (0xC0 \<le> n \<and> n \<le> 0xDE \<and> n \<noteq> 0xD7)
      then char_of (n + 32) else c)"

definition upper_ascii_char :: "char \<Rightarrow> char" where
  "upper_ascii_char c =
     (let n = (of_char c :: nat) in
      if 0x61 \<le> n \<and> n \<le> 0x7A then char_of (n - 32) else c)"

definition lower :: "string \<Rightarrow> string" where
  "lower s = map lower_char s"

definition rstrip_chars :: "(char \<Rightarrow> bool) \<Rightarrow> string \<Rightarrow> string" where
  "rstrip_chars P s = rev (dropWhile P (rev s))"

definition lstrip_chars :: "(char \<Rightarrow> bool) \<Rightarrow> string \<Rightarrow> string" where
  "lstrip_chars P s = dropWhile P s"

definition rstrip :: "string \<Rightarrow> string" where
  "rstrip s = rstrip_chars py_space s"

definition strip :: "string \<Rightarrow> string" where
  "strip s = rstrip_chars py_space (lstrip_chars py_space s)"

definition endswith :: "string \<Rightarrow> string \<Rightarrow> bool" where
  "endswith s suf = suffix suf s"

definition startswith :: "string \<Rightarrow> string \<Rightarrow> bool" where
  "startswith s pre = prefix pre s"

definition ljust :: "string \<Rightarrow> nat \<Rightarrow> string" where
  "ljust s w = s @ replicate (w - length s) CHR '' ''"

fun split_on :: "char \<Rightarrow> string \<Rightarrow> string list" where
  \<comment> \<open>\<open>s.split(c)\<close> for a one-character separator: empty fields are kept\<close>
  "split_on sep [] = [[]]"
| "split_on sep (c # cs) =
     (if c = sep then [] # split_on sep cs
      else (case split_on sep cs of w # ws \<Rightarrow> (c # w) # ws | [] \<Rightarrow> [[c]]))"

fun split_ws :: "string \<Rightarrow> string list" where
  \<comment> \<open>\<open>s.split()\<close>: the maximal runs of non-whitespace characters\<close>
  "split_ws [] = []"
| "split_ws (c # cs) =
     (if py_space c then split_ws cs
      else (case cs of
              [] \<Rightarrow> [[c]]
            | d # ds \<Rightarrow> if py_space d then [c] # split_ws cs
                       else (case split_ws cs of w # ws \<Rightarrow> (c # w) # ws | [] \<Rightarrow> [[c]])))"

fun join :: "string \<Rightarrow> string list \<Rightarrow> string" where
  "join sep [] = []"
| "join sep [x] = x"
| "join sep (x # y # ys) = x @ sep @ join sep (y # ys)"

fun py_in :: "string \<Rightarrow> string \<Rightarrow> bool" where
  \<comment> \<open>\<open>x in y\<close> on strings: \<open>x\<close> occurs in \<open>y\<close> as a contiguous substring\<close>
  "py_in x [] = (x = [])"
| "py_in x (c # cs) = (prefix x (c # cs) \<or> py_in x cs)"

fun replace_str :: "string \<Rightarrow> string \<Rightarrow> string \<Rightarrow> string" where
  \<comment> \<open>\<open>s.replace(old, new)\<close> for a non-empty \<open>old\<close>, left to right, non-overlapping\<close>
  "replace_str old new [] = []"
| "replace_str old new (c # cs) =
     (if old \<noteq> [] \<and> prefix old (c # cs)
      then new @ replace_str old new (drop (length old) (c # cs))
      else c # replace_str old new cs)"

section \<open>Regular expressions as \<open>re\<close> matches them\<close>

text \<open>
  The patterns of the program are written as terms of \<open>rx\<close> and run by a backtracking
  matcher that returns every way to match, in the order in which Python's engine tries
  them: the left alternative first, the longest repetition first.  The head of the list
  is the match \<open>re\<close> reports.  A state is the text to the left of the position (reversed),
  the text to its right, and the groups captured so far (the latest first).
  Groups that the program never reads are left out of the patterns.
\<close>

datatype rx =
    Eps
  | Chr "char \<Rightarrow> bool"
  | Seq rx rx
  | Alt rx rx
  | Rep nat "char \<Rightarrow> bool"
  | Grp nat rx
  | Wb
  | Bos
  | Eos

type_synonym mstate = "string \<times> string \<times> (nat \<times> string) list"

definition at_word_boundary :: "string \<Rightarrow> string \<Rightarrow> bool" where
  "at_word_boundary b r =
     ((case b of [] \<Rightarrow> False | c # _ \<Rightarrow> py_word c) \<noteq>
      (case r of [] \<Rightarrow> False | c # _ \<Rightarrow> py_word c))"

primrec rmatch :: "rx \<Rightarrow> mstate \<Rightarrow> mstate list" where
  "rmatch Eps st = [st]"
| "rmatch (Chr P) st =
     (case st of (b, r, g) \<Rightarrow>
        (case r of [] \<Rightarrow> [] | c # r' \<Rightarrow> if P c then [(c # b, r', g)] else []))"
| "rmatch (Seq x y) st = concat (map (rmatch y) (rmatch x st))"
| "rmatch (Alt x y) st = rmatch x st @ rmatch y st"
| "rmatch (Rep n P) st =
     (case st of (b, r, g) \<Rightarrow>
        map (\<lambda>k. (rev (take k r) @ b, drop k r, g))
            (rev [n ..< Suc (length (takeWhile P r))]))"
| "rmatch (Grp i x) st =
     map (\<lambda>st'. case st' of (b', r', g') \<Rightarrow>
            (b', r', (i, rev (take (length b' - length (fst st)) b')) # g'))
         (rmatch x st)"
| "rmatch Wb st = (case st of (b, r, g) \<Rightarrow> if at_word_boundary b r then [st] else [])"
| "rmatch Bos st = (case st of (b, r, g) \<Rightarrow> if b = [] then [st] else [])"
| "rmatch Eos st = (case st of (b, r, g) \<Rightarrow> if r = [] \<or> r = [CHR 0x0A] then [st] else [])"

definition opt :: "rx \<Rightarrow> rx" where
  \<comment> \<open>\<open>x?\<close>, greedy\<close>
  "opt x = Alt x Eps"

fun lit :: "string \<Rightarrow> rx" where
  "lit [] = Eps"
| "lit (c # cs) = Seq (Chr (\<lambda>d. d = c)) (lit cs)"

fun lit_ci :: "string \<Rightarrow> rx" where
  \<comment> \<open>a literal under \<open>re.IGNORECASE\<close>, written in lower case\<close>
  "lit_ci [] = Eps"
| "lit_ci (c # cs) = Seq (Chr (\<lambda>d. d = c \<or> d = upper_ascii_char c)) (lit_ci cs)"

fun seqs :: "rx list \<Rightarrow> rx" where
  "seqs [] = Eps"
| "seqs (x # xs) = Seq x (seqs xs)"

fun alts :: "rx list \<Rightarrow> rx" where
  "alts [] = Eps"
| "alts [x] = x"
| "alts (x # y # ys) = Alt x (alts (y # ys))"

definition group :: "mstate \<Rightarrow> nat \<Rightarrow> string" where
  \<comment> \<open>\<open>m.group(i)\<close> for a group that took part in the match\<close>
  "group st i = (case map_of (snd (snd st)) i of Some s \<Rightarrow> s | None \<Rightarrow> [])"

definition re_match :: "rx \<Rightarrow> string \<Rightarrow> mstate option" where
  \<comment> \<open>\<open>pattern.match(s)\<close>: a match that starts at position 0\<close>
  "re_match x s = (case rmatch x ([], s, []) of [] \<Rightarrow> None | st # _ \<Rightarrow> Some st)"

function re_sub_from :: "rx \<Rightarrow> (mstate \<Rightarrow> string) \<Rightarrow> string \<Rightarrow> string \<Rightarrow> string" where
  "re_sub_from x f b r =
     (let ms = rmatch x (b, r, []) in
      if ms = [] then (if r = [] then [] else hd r # re_sub_from x f (hd r # b) (tl r))
      else
        let m = hd ms; r' = fst (snd m) in
        if length r' < length r then f m @ re_sub_from x f (fst m) r'
        else f m @ (if r = [] then [] else hd r # re_sub_from x f (hd r # b) (tl r)))"
  by pat_completeness auto
termination
  by (relation "measure (\<lambda>(x, f, b, r). length r)") auto

definition re_sub :: "rx \<Rightarrow> (mstate \<Rightarrow> string) \<Rightarrow> string \<Rightarrow> string" where
  \<comment> \<open>\<open>re.sub(pattern, repl, s)\<close>: the leftmost matches, left to right, each replaced.
     No pattern of the program that is used with \<open>sub\<close> matches the empty string;
     an empty match is replaced and the scan moves one character on.\<close>
  "re_sub x f s = re_sub_from x f [] s"

function re_finditer_from :: "rx \<Rightarrow> string \<Rightarrow> string \<Rightarrow> mstate list" where
  "re_finditer_from x b r =
     (let ms = rmatch x (b, r, []) in
      if ms = [] then (if r = [] then [] else re_finditer_from x (hd r # b) (tl r))
      else
        let m = hd ms; r' = fst (snd m) in
        if length r' < length r then m # re_finditer_from x (fst m) r'
        else m # (if r = [] then [] else re_finditer_from x (hd r # b) (tl r)))"
  by pat_completeness auto
termination
  by (relation "measure (\<lambda>(x, b, r). length r)") auto

definition re_finditer :: "rx \<Rightarrow> string \<Rightarrow> mstate list" where
  \<comment> \<open>\<open>re.finditer\<close>/\<open>re.findall\<close>: the non-overlapping matches, left to right\<close>
  "re_finditer x s = re_finditer_from x [] s"

section \<open>Chord grammar and classifier\<close>

definition CHORD_TOKEN_RE :: rx where
  \<comment> \<open>\<^verbatim>\<open>^[A-G][#b]?(m(?:aj)?|min|dim|aug|sus[24]?|add\d+)?\d*(\/(([A-G][#b]?)))?$\<close>\<close>
  "CHORD_TOKEN_RE =
     seqs [Bos, Chr (one_of ''ABCDEFG''), opt (Chr (one_of ''#b'')),
           opt (alts [Seq (lit ''m'') (opt (lit ''aj'')), lit ''min'', lit ''dim'', lit ''aug'',
                      Seq (lit ''sus'') (opt (Chr (one_of ''24''))),
                      Seq (lit ''add'') (Rep 1 py_digit)]),
           Rep 0 py_digit,
           opt (seqs [lit ''/'', Chr (one_of ''ABCDEFG''), opt (Chr (one_of ''#b''))]),
           Eos]"

definition is_chord_token :: "string \<Rightarrow> bool" where
  "is_chord_token token =
     (let token = (if endswith token ''bar'' \<and> length token > 3
                   then take (length token - 3) token else token);
          token = (if endswith token ''bar''
                   then take (length token - 3) token else token)
      in re_match CHORD_TOKEN_RE token \<noteq> None)"

definition BAR_RE :: rx where
  \<comment> \<open>\<^verbatim>\<open>\b([A-G][#b]?(?:m|maj|min|dim|aug|sus[24]?|add\d+|\d+)?)\s*bar\b\<close>,
     the pattern of the two \<open>re.sub\<close> calls that collapse "X bar" into "X"\<close>
  "BAR_RE =
     seqs [Wb,
           Grp 1 (seqs [Chr (one_of ''ABCDEFG''), opt (Chr (one_of ''#b'')),
                        opt (alts [lit ''m'', lit ''maj'', lit ''min'', lit ''dim'', lit ''aug'',
                                   Seq (lit ''sus'') (opt (Chr (one_of ''24''))),
                                   Seq (lit ''add'') (Rep 1 py_digit),
                                   Rep 1 py_digit])]),
           Rep 0 py_space, lit ''bar'', Wb]"

definition count_chord_tokens :: "string list \<Rightarrow> nat" where
  \<comment> \<open>\<open>sum(1 for t in tokens if is_chord_token(t))\<close>\<close>
  "count_chord_tokens tokens = length (filter is_chord_token tokens)"

definition is_chord_line :: "string \<Rightarrow> bool" where
  \<comment> \<open>\<open>chord_count >= len(tokens) * 0.6\<close> compares an integer with a double; for fewer
     than \<open>2^50\<close> tokens it holds exactly when \<open>5 * chord_count >= 3 * len(tokens)\<close>,
     written here over the rationals.\<close>
  "is_chord_line line =
     (let trimmed = strip line in
      if trimmed = [] then False
      else
        let collapsed = re_sub BAR_RE (\<lambda>m. group m 1) trimmed;
            tokens = split_ws collapsed in
        if tokens = [] then False
        else
          let chord_count = count_chord_tokens tokens in
          chord_count > 0 \<and> (of_nat chord_count :: rat) \<ge> of_nat (length tokens) * (6 / 10))"

definition INLINE_CHORDPRO_RE :: rx where
  \<comment> \<open>\<^verbatim>\<open>\[([A-G][#b]?(?:m(?:aj)?|min|dim|aug|sus[24]?|add\d+)?\d*(?:/[A-G][#b]?)?)\]\<close>\<close>
  "INLINE_CHORDPRO_RE =
     seqs [lit ''['',
           Grp 1 (seqs [Chr (one_of ''ABCDEFG''), opt (Chr (one_of ''#b'')),
                        opt (alts [Seq (lit ''m'') (opt (lit ''aj'')), lit ''min'', lit ''dim'',
                                   lit ''aug'', Seq (lit ''sus'') (opt (Chr (one_of ''24''))),
                                   Seq (lit ''add'') (Rep 1 py_digit)]),
                        Rep 0 py_digit,
                        opt (seqs [lit ''/'', Chr (one_of ''ABCDEFG''), opt (Chr (one_of ''#b''))])]),
           lit '']'']"

definition has_inline_chordpro :: "string \<Rightarrow> bool" where
  "has_inline_chordpro line =
     (let matches = re_finditer INLINE_CHORDPRO_RE line in
      if length matches < 1 then False
      else
        let stripped = strip (re_sub INLINE_CHORDPRO_RE (\<lambda>m. []) line) in
        length matches \<ge> 1 \<and> (length stripped > 0 \<or> length matches \<ge> 2))"

definition is_chord_file :: "string list \<Rightarrow> bool" where
  \<comment> \<open>\<open>chord_lines / len(non_empty) > 0.15\<close>: Python divides two integers into the
     nearest double and compares it with the double nearest to 0.15; for fewer than
     \<open>2^50\<close> lines this is the comparison of the exact quotient with 15/100.\<close>
  "is_chord_file lines =
     (let non_empty = filter (\<lambda>l. strip l \<noteq> []) lines in
      if non_empty = [] then False
      else
        let chord_lines = length (filter (\<lambda>l. is_chord_line l \<or> has_inline_chordpro l) non_empty) in
        (of_nat chord_lines :: rat) / of_nat (length non_empty) > 15 / 100)"

section \<open>Tab expansion, position extraction, snapping and merging\<close>

fun expand_tabs_from :: "nat \<Rightarrow> nat \<Rightarrow> string \<Rightarrow> string" where
  \<comment> \<open>the loop of \<open>expand_tabs\<close>; the first argument is \<open>tab_width\<close>, the second \<open>col\<close>\<close>
  "expand_tabs_from tab_width col [] = []"
| "expand_tabs_from tab_width col (ch # line) =
     (if ch = CHR 0x09
      then (let spaces = tab_width - (col mod tab_width) in
            replicate spaces CHR '' '' @ expand_tabs_from tab_width (col + spaces) line)
      else ch # expand_tabs_from tab_width (col + 1) line)"

definition expand_tabs :: "string \<Rightarrow> string" where
  "expand_tabs line = expand_tabs_from 4 0 line"

function extract_chords_from :: "nat \<Rightarrow> string \<Rightarrow> (nat \<times> string) list" where
  \<comment> \<open>the \<open>while i < len(collapsed)\<close> loop; the string is \<open>collapsed[i:]\<close>\<close>
  "extract_chords_from i [] = []"
| "extract_chords_from i (c # cs) =
     (if c = CHR '' '' then extract_chords_from (i + 1) cs
      else
        let token = takeWhile (\<lambda>d. d \<noteq> CHR '' '') (c # cs);
            j = i + length token;
            token' = rstrip_chars (one_of ''.,;:'') token in
        if token' \<noteq> [] \<and> is_chord_token token'
        then (i, token') # extract_chords_from j (drop (length token) (c # cs))
        else extract_chords_from j (drop (length token) (c # cs)))"
  by pat_completeness auto
termination
  by (relation "measure (\<lambda>(i, s). length s)") auto

definition extract_chords_with_positions :: "string \<Rightarrow> (nat \<times> string) list" where
  "extract_chords_with_positions chord_line =
     (let expanded = expand_tabs chord_line;
          collapsed = re_sub BAR_RE (\<lambda>m. group m 1) expanded
      in extract_chords_from 0 collapsed)"

primrec scan_back :: "string \<Rightarrow> nat \<Rightarrow> nat" where
  \<comment> \<open>\<open>while word_start > 0 and lyric[word_start - 1] != ' ': word_start -= 1\<close>\<close>
  "scan_back lyric 0 = 0"
| "scan_back lyric (Suc k) = (if lyric ! k \<noteq> CHR '' '' then scan_back lyric k else Suc k)"

function scan_fwd :: "(char \<Rightarrow> bool) \<Rightarrow> string \<Rightarrow> nat \<Rightarrow> nat" where
  \<comment> \<open>\<open>while i < len(lyric) and P(lyric[i]): i += 1\<close>\<close>
  "scan_fwd P lyric i = (if i < length lyric \<and> P (lyric ! i) then scan_fwd P lyric (Suc i) else i)"
  by pat_completeness auto
termination
  by (relation "measure (\<lambda>(P, lyric, i). length lyric - i)") auto

definition snap_to_word_boundary :: "nat \<Rightarrow> string \<Rightarrow> nat" where
  \<comment> \<open>positions are never negative, and each difference below is of a larger minus a
     smaller number; \<open>dist_back > word_len * 0.5\<close> is exact in doubles\<close>
  "snap_to_word_boundary pos lyric =
     (if pos \<ge> length lyric then pos
      else if pos = 0 \<or> lyric ! (pos - 1) = CHR '' '' then pos
      else
        let word_start = scan_back lyric pos;
            next_word = scan_fwd (\<lambda>c. c \<noteq> CHR '' '') lyric pos;
            next_word = scan_fwd (\<lambda>c. c = CHR '' '') lyric next_word;
            dist_back = pos - word_start;
            dist_fwd = (if next_word < length lyric then next_word - pos else 999);
            word_end = scan_fwd (\<lambda>c. c \<noteq> CHR '' '') lyric pos;
            word_len = word_end - word_start
        in
          if word_len > 0 \<and> 2 * dist_back > word_len \<and> dist_fwd < 999 then next_word
          else if dist_fwd \<le> dist_back then next_word
          else word_start)"

definition TRAILING_CHORD_RE :: rx where
  \<comment> \<open>\<^verbatim>\<open>\s{2,}(\[[^\]]+\])\s*$\<close>\<close>
  "TRAILING_CHORD_RE =
     seqs [Rep 2 py_space, Grp 1 (seqs [lit ''['', Rep 1 (none_of '']''), lit '']'']),
           Rep 0 py_space, Eos]"

definition BRACKET_SPACES_RE :: rx where
  \<comment> \<open>\<^verbatim>\<open>(\]) {2,}\<close>\<close>
  "BRACKET_SPACES_RE = seqs [Grp 1 (lit '']''), Rep 2 (one_of '' '')]"

definition insert_chord :: "nat \<times> string \<Rightarrow> string \<Rightarrow> string" where
  \<comment> \<open>one round of the \<open>for pos, chord in reversed(snapped)\<close> loop\<close>
  "insert_chord pc result =
     (case pc of (pos, chord) \<Rightarrow>
        let insert_pos = min pos (length result) in
        take insert_pos result @ ''['' @ chord @ '']'' @ drop insert_pos result)"

definition merge_chord_and_lyric_lines :: "string \<Rightarrow> string \<Rightarrow> string" where
  "merge_chord_and_lyric_lines chord_line lyric_line =
     (let chords = extract_chords_with_positions chord_line in
      if chords = [] then strip lyric_line
      else
        let lyric = rstrip (expand_tabs lyric_line);
            max_pos = Max (set (map fst chords));
            lyric = (if length lyric \<le> max_pos then ljust lyric (max_pos + 1) else lyric);
            snapped = map (\<lambda>(pos, chord). (snap_to_word_boundary pos lyric, chord)) chords;
            result = fold insert_chord (rev snapped) lyric;
            result = re_sub TRAILING_CHORD_RE (\<lambda>m. '' '' @ group m 1) result;
            result = re_sub BRACKET_SPACES_RE (\<lambda>m. ''] '') result
        in strip result)"

section \<open>Headers, file names, key detection\<close>

definition DATE_HEADER_RE :: rx where
  \<comment> \<open>\<^verbatim>\<open>^\s*Sunday\b\<close> under \<open>re.IGNORECASE\<close>\<close>
  "DATE_HEADER_RE = seqs [Bos, Rep 0 py_space, lit_ci ''sunday'', Wb]"

definition is_date_header :: "string \<Rightarrow> bool" where
  "is_date_header line = (re_match DATE_HEADER_RE line \<noteq> None)"

definition EXTENSION_RE :: rx where
  \<comment> \<open>\<^verbatim>\<open>\.(odt|docx?|pages)$\<close> under \<open>re.IGNORECASE\<close>\<close>
  "EXTENSION_RE =
     seqs [lit ''.'', alts [lit_ci ''odt'', Seq (lit_ci ''doc'') (opt (lit_ci ''x'')), lit_ci ''pages''],
           Eos]"

definition CHORDS_SUFFIX_RE :: rx where
  \<comment> \<open>\<^verbatim>\<open>\s*-?\s*[Cc]hords?\s*$\<close>\<close>
  "CHORDS_SUFFIX_RE =
     seqs [Rep 0 py_space, opt (lit ''-''), Rep 0 py_space, Chr (one_of ''Cc''), lit ''hord'',
           opt (lit ''s''), Rep 0 py_space, Eos]"

definition clean_filename :: "string \<Rightarrow> string" where
  "clean_filename filename =
     (let name = re_sub EXTENSION_RE (\<lambda>m. []) filename;
          name = re_sub CHORDS_SUFFIX_RE (\<lambda>m. []) name;
          name = re_sub (Rep 1 (one_of ''-_'')) (\<lambda>m. '' '') name;
          name = strip (re_sub (Rep 1 py_space) (\<lambda>m. '' '') name)
      in name)"

definition NOTES_SHARP :: "string list" where
  "NOTES_SHARP = [''C'', ''C#'', ''D'', ''D#'', ''E'', ''F'', ''F#'', ''G'', ''G#'', ''A'', ''A#'', ''B'']"

definition NOTES_FLAT :: "string list" where
  "NOTES_FLAT = [''C'', ''Db'', ''D'', ''Eb'', ''E'', ''F'', ''Gb'', ''G'', ''Ab'', ''A'', ''Bb'', ''B'']"

definition NOTE_TO_INDEX :: "string \<rightharpoonup> nat" where
  \<comment> \<open>the dictionary filled by the two \<open>for i, n in enumerate(...)\<close> loops\<close>
  "NOTE_TO_INDEX =
     fold (\<lambda>(i, n) m. m(n \<mapsto> i)) (enumerate 0 NOTES_FLAT)
       (fold (\<lambda>(i, n) m. m(n \<mapsto> i)) (enumerate 0 NOTES_SHARP) Map.empty)"

record Section =
  type :: string
  label :: string
  lines :: "string list"

record Song =
  title :: string
  key :: string
  sections :: "Section list"

fun counter_incr :: "(string \<times> nat) list \<Rightarrow> string \<Rightarrow> (string \<times> nat) list" where
  \<comment> \<open>\<open>root_counts[root] += 1\<close> on a \<open>Counter\<close>: a dictionary keeps its keys in the
     order of their first insertion\<close>
  "counter_incr [] k = [(k, 1)]"
| "counter_incr ((k', n) # kvs) k =
     (if k' = k then (k', n + 1) # kvs else (k', n) # counter_incr kvs k)"

fun first_max :: "(string \<times> nat) \<Rightarrow> (string \<times> nat) list \<Rightarrow> (string \<times> nat)" where
  \<comment> \<open>\<open>max(items, key=count)\<close>, which is what \<open>most_common(1)\<close> computes: the first
     item among those of the greatest count\<close>
  "first_max best [] = best"
| "first_max best (kv # kvs) = (if snd kv > snd best then first_max kv kvs else first_max best kvs)"

definition KEY_ROOT_RE :: rx where
  \<comment> \<open>\<^verbatim>\<open>\[([A-G][#b]?)\<close>\<close>
  "KEY_ROOT_RE = seqs [lit ''['', Grp 1 (Seq (Chr (one_of ''ABCDEFG'')) (opt (Chr (one_of ''#b''))))]"

definition count_roots_line :: "string \<Rightarrow> (string \<times> nat) list \<Rightarrow> (string \<times> nat) list" where
  \<comment> \<open>the \<open>for match in re.finditer(...)\<close> loop over one line\<close>
  "count_roots_line line root_counts =
     fold (\<lambda>match root_counts.
             let root = group match 1 in
             if NOTE_TO_INDEX root \<noteq> None then counter_incr root_counts root else root_counts)
          (re_finditer KEY_ROOT_RE line) root_counts"

definition detect_key :: "Section list \<Rightarrow> string" where
  "detect_key sects =
     (let root_counts =
            fold (\<lambda>sect root_counts. fold count_roots_line (lines sect) root_counts) sects []
      in if root_counts \<noteq> [] then fst (first_max (hd root_counts) (tl root_counts)) else ''C'')"

section \<open>Section labels\<close>

definition SECTION_LABEL_RE :: rx where
  \<comment> \<open>\<^verbatim>\<open>^\[([^\]]+)\]\s*$\<close>\<close>
  "SECTION_LABEL_RE =
     seqs [Bos, lit ''['', Grp 1 (Rep 1 (none_of '']'')), lit '']'', Rep 0 py_space, Eos]"

definition SECTION_LABEL_LOOSE_RE :: rx where
  \<comment> \<open>\<^verbatim>\<open>^\[([^\]]+)\]\<close>\<close>
  "SECTION_LABEL_LOOSE_RE = seqs [Bos, lit ''['', Grp 1 (Rep 1 (none_of '']'')), lit '']'']"

definition UNBRACKETED_SECTION_RE :: rx where
  \<comment> \<open>\<^verbatim>\<open>^(Repeat\s+|Final\s+)?(Intro|Verse|Chorus|Bridge|Tag|Outro|Pre[\s-]?Chorus|Interlude|Turn|Instrumental|Ending|Vamp)(\s+\d+)?(\s+(Repeat|x\d+))?\s*$\<close>
     under \<open>re.IGNORECASE\<close>\<close>
  "UNBRACKETED_SECTION_RE =
     seqs [Bos,
           opt (alts [Seq (lit_ci ''repeat'') (Rep 1 py_space), Seq (lit_ci ''final'') (Rep 1 py_space)]),
           alts [lit_ci ''intro'', lit_ci ''verse'', lit_ci ''chorus'', lit_ci ''bridge'', lit_ci ''tag'',
                 lit_ci ''outro'',
                 seqs [lit_ci ''pre'', opt (Chr (\<lambda>c. py_space c \<or> c = CHR ''-'')), lit_ci ''chorus''],
                 lit_ci ''interlude'', lit_ci ''turn'', lit_ci ''instrumental'', lit_ci ''ending'',
                 lit_ci ''vamp''],
           opt (Seq (Rep 1 py_space) (Rep 1 py_digit)),
           opt (Seq (Rep 1 py_space) (alts [lit_ci ''repeat'', Seq (lit_ci ''x'') (Rep 1 py_digit)])),
           Rep 0 py_space, Eos]"

definition unbracketed_label :: "string \<Rightarrow> string \<times> string" where
  \<comment> \<open>the \<open>if\<close>/\<open>elif\<close> chain under \<open>if um:\<close>\<close>
  "unbracketed_label label' =
     (let label_lower = lower label' in
      if py_in ''verse'' label_lower then (''verse'', label')
      else if py_in ''chorus'' label_lower \<or> py_in ''repeat'' label_lower then (''chorus'', label')
      else if py_in ''bridge'' label_lower then (''bridge'', label')
      else if py_in ''tag'' label_lower then (''tag'', label')
      else if py_in ''intro'' label_lower then (''intro'', label')
      else if py_in ''outro'' label_lower \<or> py_in ''ending'' label_lower then (''outro'', label')
      else if py_in ''pre'' label_lower then (''pre-chorus'', label')
      else if py_in ''interlude'' label_lower \<or> py_in ''turn'' label_lower
              \<or> py_in ''instrumental'' label_lower \<or> py_in ''vamp'' label_lower
           then (''section'', label')
      else (''section'', label'))"

definition bracketed_label :: "string \<Rightarrow> string \<times> string" where
  \<comment> \<open>the final \<open>if\<close>/\<open>elif\<close> chain, on \<open>label = m.group(1).strip()\<close>\<close>
  "bracketed_label label' =
     (let label_lower = lower label' in
      if py_in ''verse'' label_lower then (''verse'', label')
      else if py_in ''chorus'' label_lower then (''chorus'', label')
      else if py_in ''bridge'' label_lower then (''bridge'', label')
      else if py_in ''tag'' label_lower then (''tag'', label')
      else if py_in ''intro'' label_lower then (''intro'', label')
      else if py_in ''outro'' label_lower then (''outro'', label')
      else if py_in ''pre'' label_lower then (''pre-chorus'', label')
      else (''section'', label'))"

definition parse_section_label :: "string \<Rightarrow> (string \<times> string) option" where
  "parse_section_label line =
     (let trimmed = strip line in
      case re_match SECTION_LABEL_RE trimmed of
        Some m \<Rightarrow>
          (let bracket_content = strip (group m 1) in
           if is_chord_token bracket_content
              \<or> is_chord_token (rstrip_chars (one_of ''.,;:'') bracket_content)
           then None
           else Some (bracketed_label (strip (group m 1))))
      | None \<Rightarrow>
          (case re_match SECTION_LABEL_LOOSE_RE trimmed of
             None \<Rightarrow>
               (case re_match UNBRACKETED_SECTION_RE trimmed of
                  Some um \<Rightarrow> Some (unbracketed_label trimmed)
                | None \<Rightarrow> None)
           | Some m \<Rightarrow>
               (let bracket_content = strip (group m 1) in
                if is_chord_token bracket_content
                   \<or> is_chord_token (rstrip_chars (one_of ''.,;:'') bracket_content)
                then None
                else
                  let rest = strip (fst (snd m)) in
                  if length rest > 10 then None
                  else Some (bracketed_label (strip (group m 1))))))"

section \<open>The section parser\<close>

definition normalize_line_breaks :: "string \<Rightarrow> string" where
  \<comment> \<open>the separators U+2028 and U+2029 lie outside the modelled range of characters\<close>
  "normalize_line_breaks text =
     (let text = replace_str [CHR 0x0D, CHR 0x0A] [CHR 0x0A] text;
          text = replace_str [CHR 0x0D] [CHR 0x0A] text
      in text)"

fun re_search_from :: "rx \<Rightarrow> string \<Rightarrow> string \<Rightarrow> (string \<times> mstate) option" where
  \<comment> \<open>the leftmost match at or after the position, with the (reversed) text before it\<close>
  "re_search_from x b [] = (case rmatch x (b, [], []) of [] \<Rightarrow> None | m # _ \<Rightarrow> Some (b, m))"
| "re_search_from x b (c # cs) =
     (case rmatch x (b, c # cs, []) of
        [] \<Rightarrow> re_search_from x (c # b) cs
      | m # _ \<Rightarrow> Some (b, m))"

definition re_split1 :: "rx \<Rightarrow> string \<Rightarrow> string list" where
  \<comment> \<open>\<open>re.split(pattern, s, maxsplit=1)\<close> for a pattern without groups\<close>
  "re_split1 x s =
     (case re_search_from x [] s of
        None \<Rightarrow> [s]
      | Some (b, m) \<Rightarrow> [rev b, fst (snd m)])"

definition INLINE_BAR_RE :: rx where
  \<comment> \<open>\<^verbatim>\<open>\b([A-G][#b]?)\s+bar\b\<close>\<close>
  "INLINE_BAR_RE =
     seqs [Wb, Grp 1 (Seq (Chr (one_of ''ABCDEFG'')) (opt (Chr (one_of ''#b'')))),
           Rep 1 py_space, lit ''bar'', Wb]"

definition extract_inline_chords :: "string \<Rightarrow> string option" where
  \<comment> \<open>\<open>chord_count >= len(tokens) * 0.5\<close> is exact in doubles\<close>
  "extract_inline_chords line =
     (let trimmed = strip line in
      if trimmed = [] then None
      else
        let parts = re_split1 (Rep 1 (one_of [CHR 0x09])) line in
        if length parts = 2 then
          (let before_tab = strip (parts ! 0);
               after_tab = strip (parts ! 1) in
           if before_tab \<noteq> [] \<and> after_tab \<noteq> [] then
             (let collapsed = re_sub INLINE_BAR_RE (\<lambda>m. group m 1) before_tab;
                  tokens = split_ws collapsed;
                  chord_count = count_chord_tokens tokens in
              if tokens \<noteq> [] \<and> (of_nat chord_count :: rat) \<ge> of_nat (length tokens) * (5 / 10)
              then
                (let chords = filter is_chord_token tokens;
                     chord_prefix = concat (map (\<lambda>c. ''['' @ c @ '']'') chords)
                 in Some (chord_prefix @ after_tab))
              else None)
           else None)
        else None)"

fun find_title :: "nat \<Rightarrow> bool \<Rightarrow> string list \<Rightarrow> string option \<times> nat" where
  \<comment> \<open>the title loop: the index \<open>i\<close>, \<open>saw_section_or_chord\<close> and the lines from \<open>i\<close> on;
     the result is \<open>(title, title_end)\<close>\<close>
  "find_title i saw [] = (None, 0)"
| "find_title i saw (line # rest) =
     (let trimmed = strip line in
      if trimmed = [] then find_title (i + 1) saw rest
      else if parse_section_label trimmed \<noteq> None then find_title (i + 1) True rest
      else if is_chord_line line then find_title (i + 1) True rest
      else if saw then (None, 0)
      else if length trimmed < 80 then (Some trimmed, i + 1)
      else find_title (i + 1) saw rest)"

definition SUBTITLE_PREFIX_RE :: rx where
  \<comment> \<open>\<^verbatim>\<open>^(capo|key\s|by\s)\<close>\<close>
  "SUBTITLE_PREFIX_RE =
     seqs [Bos, alts [lit ''capo'', Seq (lit ''key'') (Chr py_space), Seq (lit ''by'') (Chr py_space)]]"

definition MONTH_YEAR_RE :: rx where
  \<comment> \<open>\<^verbatim>\<open>^[A-Z][a-z]+([-\s][A-Z][a-z]+)?\s+\d{4}\<close>\<close>
  "MONTH_YEAR_RE =
     seqs [Bos, Chr ascii_upper, Rep 1 ascii_lower,
           opt (seqs [Chr (\<lambda>c. c = CHR ''-'' \<or> py_space c), Chr ascii_upper, Rep 1 ascii_lower]),
           Rep 1 py_space, Chr py_digit, Chr py_digit, Chr py_digit, Chr py_digit]"

definition INITIAL_RE :: rx where
  \<comment> \<open>\<^verbatim>\<open>^[A-Z]\.\s\<close>\<close>
  "INITIAL_RE = seqs [Bos, Chr ascii_upper, lit ''.'', Chr py_space]"

definition TWO_WORD_NAME_RE :: rx where
  \<comment> \<open>\<^verbatim>\<open>^[A-Z][a-z]+\s+[A-Z][a-z]+$\<close>\<close>
  "TWO_WORD_NAME_RE =
     seqs [Bos, Chr ascii_upper, Rep 1 ascii_lower, Rep 1 py_space, Chr ascii_upper,
           Rep 1 ascii_lower, Eos]"

definition CAPO_SHORTHAND_RE :: rx where
  \<comment> \<open>\<^verbatim>\<open>^\d+[a-z]?$\<close>\<close>
  "CAPO_SHORTHAND_RE = seqs [Bos, Rep 1 py_digit, opt (Chr ascii_lower), Eos]"

definition is_subtitle :: "string \<Rightarrow> bool" where
  \<comment> \<open>the condition of the subtitle loop, for a line \<open>body_lines[0]\<close> that is not blank\<close>
  "is_subtitle line =
     (let trimmed = strip line;
          lower' = lower trimmed in
      re_match SUBTITLE_PREFIX_RE lower' \<noteq> None
      \<or> re_match MONTH_YEAR_RE trimmed \<noteq> None
      \<or> re_match INITIAL_RE trimmed \<noteq> None
      \<or> re_match TWO_WORD_NAME_RE trimmed \<noteq> None
      \<or> re_match CAPO_SHORTHAND_RE lower' \<noteq> None
      \<or> (length (split_ws trimmed) \<le> 4 \<and> \<not> is_chord_line line
          \<and> parse_section_label trimmed = None
          \<and> re_match (seqs [Bos, Chr ascii_upper]) trimmed \<noteq> None
          \<and> list_ex py_isdigit trimmed))"

definition add_line :: "Section \<Rightarrow> string \<Rightarrow> Section" where
  \<comment> \<open>\<open>current_section['lines'].append(...)\<close>\<close>
  "add_line current_section l = current_section\<lparr>lines := lines current_section @ [l]\<rparr>"

lemma length_tl_dropWhile: "length (tl (dropWhile P xs)) < Suc (length xs)"
  using length_dropWhile_le [of P xs] by simp

lemma length_tl_dropWhile': "length (dropWhile P xs) - Suc 0 < Suc (length xs)"
  using length_dropWhile_le [of P xs] by simp

function parse_body :: "string list \<Rightarrow> Section list \<Rightarrow> Section \<Rightarrow> Section list \<times> Section" where
  \<comment> \<open>the \<open>while i < len(body_lines)\<close> loop, on \<open>body_lines[i:]\<close>, \<open>sections\<close> and
     \<open>current_section\<close>\<close>
  "parse_body [] sects current_section = (sects, current_section)"
| "parse_body (line # rest) sects current_section =
     (let trimmed = strip line in
      if trimmed = [] then
        parse_body rest sects
          (if lines current_section \<noteq> [] then add_line current_section [] else current_section)
      else
        case parse_section_label trimmed of
          Some section_info \<Rightarrow>
            parse_body rest
              (if lines current_section \<noteq> [] then sects @ [current_section] else sects)
              \<lparr>type = fst section_info, label = snd section_info, lines = []\<rparr>
        | None \<Rightarrow>
            if is_chord_line line then
              (let after = dropWhile (\<lambda>l. strip l = []) rest in
               if after \<noteq> [] \<and> \<not> is_chord_line (hd after)
                  \<and> parse_section_label (strip (hd after)) = None
               then
                 parse_body (tl after) sects
                   (add_line current_section (merge_chord_and_lyric_lines line (hd after)))
               else
                 (let chords = extract_chords_with_positions line in
                  parse_body rest sects
                    (if chords \<noteq> []
                     then add_line current_section
                            (join '' '' (map (\<lambda>(_, c). ''['' @ c @ '']'') chords))
                     else current_section)))
            else if has_inline_chordpro line then
              parse_body rest sects (add_line current_section trimmed)
            else
              (case extract_inline_chords line of
                 Some inline_chords \<Rightarrow>
                   parse_body rest sects
                     (add_line current_section (if inline_chords \<noteq> [] then inline_chords else trimmed))
               | None \<Rightarrow> parse_body rest sects (add_line current_section trimmed)))"
  by pat_completeness auto
termination
  by (relation "measure (\<lambda>(ls, sects, cur). length ls)")
     (auto simp: length_tl_dropWhile length_tl_dropWhile')

fun collapse_blanks :: "string list \<Rightarrow> string list \<Rightarrow> string list" where
  \<comment> \<open>the loop that builds \<open>cleaned\<close>; the first argument is \<open>cleaned\<close> so far\<close>
  "collapse_blanks cleaned [] = cleaned"
| "collapse_blanks cleaned (line # rest) =
     (if line = [] \<and> cleaned \<noteq> [] \<and> last cleaned = [] then collapse_blanks cleaned rest
      else collapse_blanks (cleaned @ [line]) rest)"

definition clean_section :: "Section \<Rightarrow> Section" where
  \<comment> \<open>one round of the clean-up loop: trailing blanks popped, leading blanks popped,
     consecutive blanks collapsed\<close>
  "clean_section sect =
     (let ls = rev (dropWhile (\<lambda>l. l = []) (rev (lines sect)));
          ls = dropWhile (\<lambda>l. l = []) ls
      in sect\<lparr>lines := collapse_blanks [] ls\<rparr>)"

definition finish_sections :: "Section list \<times> Section \<Rightarrow> Section list" where
  \<comment> \<open>from "Save last section" to "Remove empty sections"\<close>
  "finish_sections st =
     (case st of (sects, current_section) \<Rightarrow>
        let sects = (if lines current_section \<noteq> [] then sects @ [current_section] else sects);
            sects = map clean_section sects
        in filter (\<lambda>s. lines s \<noteq> []) sects)"

definition body_of :: "string list \<Rightarrow> string option \<times> string list" where
  \<comment> \<open>from "Strip date headers and leading blanks" to the end of the subtitle loop:
     the title found in the text, if any, and \<open>body_lines\<close>\<close>
  "body_of raw_lines =
     (let lines' = dropWhile (\<lambda>line. strip line = [] \<or> is_date_header line) raw_lines;
          found = find_title 0 False lines';
          body_lines = drop (snd found) lines';
          body_lines = dropWhile (\<lambda>l. strip l = []) body_lines;
          body_lines = dropWhile (\<lambda>l. strip l = [] \<or> is_subtitle l) body_lines
      in (fst found, body_lines))"

definition parse_chord_file :: "string \<Rightarrow> string \<Rightarrow> Song option" where
  "parse_chord_file text filename =
     (let text = normalize_line_breaks text;
          raw_lines = split_on (CHR 0x0A) text in
      if \<not> is_chord_file raw_lines then None
      else
        let found = body_of raw_lines;
            title' = (case fst found of
                        Some t \<Rightarrow> if t \<noteq> [] then t else clean_filename filename
                      | None \<Rightarrow> clean_filename filename);
            sects = finish_sections
                      (parse_body (snd found) [] \<lparr>type = ''verse'', label = [], lines = []\<rparr>)
        in
          if sects = [] then None
          else Some \<lparr>title = title', key = detect_key sects, sections = sects\<rparr>)"

section \<open>Catalog reconciliation\<close>

definition normalize_title :: "string \<Rightarrow> string" where
  \<comment> \<open>\<^verbatim>\<open>re.sub(r'[^a-z0-9]', '', title.lower())\<close>\<close>
  "normalize_title t =
     re_sub (Chr (\<lambda>c. \<not> (ascii_lower c \<or> py_digit c))) (\<lambda>m. []) (lower t)"

fun force_songs_of :: "string list \<Rightarrow> string list" where
  \<comment> \<open>the loop over \<open>sys.argv\<close> that fills \<open>force_songs\<close>\<close>
  "force_songs_of (arg # next # rest) =
     (if arg = ''--force-song'' then normalize_title next # force_songs_of (next # rest)
      else force_songs_of (next # rest))"
| "force_songs_of _ = []"

definition force_matched :: "string set \<Rightarrow> string \<Rightarrow> bool" where
  \<comment> \<open>\<open>any(fs in nt or nt in fs for fs in force_songs)\<close>\<close>
  "force_matched force_songs nt = (\<exists>fs\<in>force_songs. py_in fs nt \<or> py_in nt fs)"

fun drop_forced ::
  "string set \<Rightarrow> Song list \<Rightarrow> Song list \<times> string set \<Rightarrow> Song list \<times> string set" where
  \<comment> \<open>the \<open>for s in existing_songs\<close> loop on \<open>(kept, existing_titles)\<close>\<close>
  "drop_forced force_songs [] st = st"
| "drop_forced force_songs (s # rest) (kept, existing_titles) =
     (let nt = normalize_title (title s) in
      if force_matched force_songs nt
      then drop_forced force_songs rest (kept, existing_titles - {nt})
      else drop_forced force_songs rest (kept @ [s], existing_titles))"

definition match_found :: "string set \<Rightarrow> string \<Rightarrow> bool" where
  \<comment> \<open>\<open>nt in existing_titles or any(nt in et or et in nt for et in existing_titles)\<close>\<close>
  "match_found existing_titles nt =
     (nt \<in> existing_titles \<or> (\<exists>et\<in>existing_titles. py_in nt et \<or> py_in et nt))"

fun import_files :: "string set \<Rightarrow> (string \<times> string option) list \<Rightarrow> Song list \<Rightarrow> Song list" where
  \<comment> \<open>the \<open>for filename in files\<close> loop on \<open>new_songs\<close>; a file comes with what
     \<open>textutil\<close> printed, or \<open>None\<close> when it failed or timed out\<close>
  "import_files existing_titles [] new_songs = new_songs"
| "import_files existing_titles ((filename, converted) # files) new_songs =
     (case converted of
        None \<Rightarrow> import_files existing_titles files new_songs
      | Some stdout \<Rightarrow>
          (case parse_chord_file stdout filename of
             None \<Rightarrow> import_files existing_titles files new_songs
           | Some song \<Rightarrow>
               (let nt = normalize_title (title song) in
                if match_found existing_titles nt
                then import_files existing_titles files new_songs
                else import_files existing_titles files (new_songs @ [song]))))"

definition main :: "string list \<Rightarrow> Song list \<Rightarrow> (string \<times> string option) list \<Rightarrow> Song list" where
  \<comment> \<open>\<open>main\<close> as a function of \<open>sys.argv\<close>, of what \<open>load_existing_songs()\<close> returns and of
     the sorted files with their conversions; the result is \<open>all_songs\<close>, the catalog
     that is written\<close>
  "main argv stored files =
     (let force_all = (''--force'' \<in> set argv);
          force_songs = set (force_songs_of argv);
          existing_songs = (if force_all then [] else stored);
          existing_titles = set (map (\<lambda>s. normalize_title (title s)) existing_songs);
          st = (if \<not> force_all \<and> existing_songs \<noteq> [] \<and> force_songs \<noteq> {}
                then drop_forced force_songs existing_songs ([], existing_titles)
                else (existing_songs, existing_titles));
          new_songs = import_files (snd st) files []
      in sort_key (\<lambda>s. lower (title s)) (fst st @ new_songs))"

section \<open>Notions used in the statements\<close>

fun parsed_songs :: "(string \<times> string option) list \<Rightarrow> Song list" where
  \<comment> \<open>the songs that \<open>parse_chord_file\<close> returns for the files of a batch, in their order\<close>
  "parsed_songs [] = []"
| "parsed_songs ((filename, converted) # files) =
     (case converted of
        None \<Rightarrow> parsed_songs files
      | Some stdout \<Rightarrow>
          (case parse_chord_file stdout filename of
             None \<Rightarrow> parsed_songs files
           | Some song \<Rightarrow> song # parsed_songs files))"

definition ntitle :: "Song \<Rightarrow> string" where
  \<comment> \<open>the normalized title of a song\<close>
  "ntitle s = normalize_title (title s)"

definition sort_songs :: "Song list \<Rightarrow> Song list" where
  \<comment> \<open>\<open>all_songs.sort(key=lambda s: s['title'].lower())\<close>: a stable sort\<close>
  "sort_songs xs = sort_key (\<lambda>s. lower (title s)) xs"

definition preserved :: "string list \<Rightarrow> Song list \<Rightarrow> Song list" where
  \<comment> \<open>the stored songs that a run keeps\<close>
  "preserved argv stored =
     (if ''--force'' \<in> set argv then []
      else filter (\<lambda>s. \<not> force_matched (set (force_songs_of argv)) (ntitle s)) stored)"

definition blank_ok :: "string \<Rightarrow> string \<Rightarrow> bool" where
  \<comment> \<open>two neighbouring lines are not both blank markers\<close>
  "blank_ok a b = (\<not> (a = [] \<and> b = []))"

text \<open>Small documents and songs on which the statements are tried.\<close>

definition docA :: string where
  "docA = join [CHR 0x0A] [''Amazing Grace'', ''C G'', ''Amazing grace'']"

definition songA :: Song where
  "songA = \<lparr>title = ''Amazing Grace'', key = ''C'',
            sections = [\<lparr>type = ''verse'', label = [], lines = [''[C][G]Amazing grace'']\<rparr>]\<rparr>"

definition docB :: string where
  "docB = join [CHR 0x0A] [''Be Thou'', ''C G'', ''Be thou my vision'']"

definition docStar :: string where
  "docStar = join [CHR 0x0A] [''***'', ''C G'', ''Be thou my vision'']"

definition songLive :: Song where
  "songLive = \<lparr>title = ''Amazing Grace (Live)'', key = ''G'',
            sections = [\<lparr>type = ''verse'', label = [], lines = [''[G]Amazing grace'']\<rparr>]\<rparr>"

definition songZ :: Song where
  "songZ = \<lparr>title = ''Zion'', key = ''D'',
            sections = [\<lparr>type = ''verse'', label = [], lines = [''[D]Zion'']\<rparr>]\<rparr>"

definition docC :: string where
  "docC = join [CHR 0x0A] [''My Song'', ''C G'', ''hello world'', '''', '''', ''again'', '''',
                           ''[Chorus]'', '''', ''[C]la [G]la'', '''']"

definition songC :: Song where
  "songC = \<lparr>title = ''My Song'', key = ''C'',
     sections = [\<lparr>type = ''verse'', label = [], lines = [''[C][G]hello world'', [], ''again'']\<rparr>,
                 \<lparr>type = ''chorus'', label = ''Chorus'', lines = [''[C]la [G]la'']\<rparr>]\<rparr>"

definition doc15 :: "string list" where
  "doc15 = replicate 3 ''C G'' @ replicate 17 ''la''"

definition doc16 :: "string list" where
  "doc16 = replicate 4 ''C G'' @ replicate 21 ''la''"

definition line_roots :: "string \<Rightarrow> string list" where
  "line_roots line = map (\<lambda>m. group m 1) (re_finditer KEY_ROOT_RE line)"

definition bracket_roots :: "Section list \<Rightarrow> string list" where
  "bracket_roots sects = concat (map (\<lambda>sect. concat (map line_roots (lines sect))) sects)"

definition counted_roots :: "Section list \<Rightarrow> string list" where
  "counted_roots sects = filter (\<lambda>r. NOTE_TO_INDEX r \<noteq> None) (bracket_roots sects)"

primrec firsts :: "'a list \<Rightarrow> 'a list" where
  "firsts [] = []"
| "firsts (x # xs) = x # filter (\<lambda>y. y \<noteq> x) (firsts xs)"

definition tally :: "string list \<Rightarrow> (string \<times> nat) list" where
  "tally rs = fold (\<lambda>r root_counts. counter_incr root_counts r) rs []"

definition songC4 :: "Section list" where
  "songC4 = [\<lparr>type = ''verse'', label = [], lines = [''[C]Amazing [G]grace'', ''how [C]sweet the [Am]sound'']\<rparr>,
             \<lparr>type = ''chorus'', label = ''Chorus'', lines = [''[C]la'']\<rparr>]"

definition songCb :: "Section list" where
  "songCb = [\<lparr>type = ''verse'', label = [], lines = [''[Cb]Amazing [Cb]grace how [G]sweet'']\<rparr>]"
















section \<open>The word-boundary snapper and the line merger\<close>

lemma snap_keeps_word_start:
  "pos = 0 \<or> lyric ! (pos - 1) = CHR '' '' \<Longrightarrow> snap_to_word_boundary pos lyric = pos"
  by (auto simp: snap_to_word_boundary_def)

text \<open>
  Claim C1.  Every chord line whose chords are "C", "G" and "Am" at the columns 0, 8 and
  16 (the line \<open>C       G       Am\<close> is one) merges with the lyric line
  "Amazing grace how sweet" into \<open>[C]Amazing [G]grace how [Am]sweet\<close>; the chord at
  column 16 snaps forward to column 18; and a chord at column 0, or one whose preceding lyric
  character is a space, keeps its column.
\<close>

theorem C1_merge_example:
  "(extract_chords_with_positions chord_line = [(0, ''C''), (8, ''G''), (16, ''Am'')] \<longrightarrow>
      merge_chord_and_lyric_lines chord_line ''Amazing grace how sweet''
        = ''[C]Amazing [G]grace how [Am]sweet'')
   \<and> extract_chords_with_positions ''C       G       Am'' = [(0, ''C''), (8, ''G''), (16, ''Am'')]
   \<and> snap_to_word_boundary 16 ''Amazing grace how sweet'' = 18
   \<and> (pos = 0 \<or> lyric ! (pos - 1) = CHR '' '' \<longrightarrow> snap_to_word_boundary pos lyric = pos)"
proof (intro conjI impI)
  assume a: "extract_chords_with_positions chord_line = [(0, ''C''), (8, ''G''), (16, ''Am'')]"
  have "(let chords = [(0::nat, ''C''), (8, ''G''), (16, ''Am'')] in
      if chords = [] then strip ''Amazing grace how sweet''
      else
        let lyric = rstrip (expand_tabs ''Amazing grace how sweet'');
            max_pos = Max (set (map fst chords));
            lyric = (if length lyric \<le> max_pos then ljust lyric (max_pos + 1) else lyric);
            snapped = map (\<lambda>(pos, chord). (snap_to_word_boundary pos lyric, chord)) chords;
            result = fold insert_chord (rev snapped) lyric;
            result = re_sub TRAILING_CHORD_RE (\<lambda>m. '' '' @ group m 1) result;
            result = re_sub BRACKET_SPACES_RE (\<lambda>m. ''] '') result
        in strip result) = ''[C]Amazing [G]grace how [Am]sweet''"
    by code_simp
  then show "merge_chord_and_lyric_lines chord_line ''Amazing grace how sweet''
        = ''[C]Amazing [G]grace how [Am]sweet''"
    unfolding merge_chord_and_lyric_lines_def a .
next
  show "extract_chords_with_positions ''C       G       Am'' = [(0, ''C''), (8, ''G''), (16, ''Am'')]"
    by code_simp
next
  show "snap_to_word_boundary 16 ''Amazing grace how sweet'' = 18"
    by code_simp
next
  assume "pos = 0 \<or> lyric ! (pos - 1) = CHR '' ''"
  then show "snap_to_word_boundary pos lyric = pos"
    by (rule snap_keeps_word_start)
qed

theorem C1_merge_example_witness:
  "merge_chord_and_lyric_lines ''C       G       Am'' ''Amazing grace how sweet''
     = ''[C]Amazing [G]grace how [Am]sweet''
   \<and> snap_to_word_boundary 8 ''Amazing grace how sweet'' = 8
   \<and> snap_to_word_boundary 0 ''Amazing grace how sweet'' = 0"
  using C1_merge_example [of "''C       G       Am''" 8 "''Amazing grace how sweet''"]
        C1_merge_example [of "''C       G       Am''" 0 "''Amazing grace how sweet''"]
  by simp

section \<open>Catalog reconciliation: proofs\<close>

lemma py_in_sublist: "py_in x y \<longleftrightarrow> sublist x y"
  by (induction y) (simp_all add: sublist_Cons_right)

lemma force_songs_of_none: "''--force-song'' \<notin> set argv \<Longrightarrow> force_songs_of argv = []"
  by (induction argv rule: force_songs_of.induct) auto

lemma import_files_eq:
  "import_files T files acc
     = acc @ filter (\<lambda>s. \<not> match_found T (ntitle s)) (parsed_songs files)"
  by (induction T files acc rule: import_files.induct)
     (auto simp: ntitle_def split: option.splits)

lemma drop_forced_eq:
  "drop_forced F xs (kept, T)
     = (kept @ filter (\<lambda>s. \<not> force_matched F (ntitle s)) xs,
        T - ntitle ` {s \<in> set xs. force_matched F (ntitle s)})"
proof (induction xs arbitrary: kept T)
  case Nil
  then show ?case by simp
next
  case (Cons s xs)
  show ?case
  proof (cases "force_matched F (ntitle s)")
    case True
    then show ?thesis
      using Cons.IH [of kept "T - {ntitle s}"] by (auto simp: ntitle_def Let_def)
  next
    case False
    then show ?thesis
      using Cons.IH [of "kept @ [s]" T] by (auto simp: ntitle_def Let_def)
  qed
qed

lemma kept_titles:
  "ntitle ` set xs - ntitle ` {s \<in> set xs. force_matched F (ntitle s)}
     = ntitle ` set (filter (\<lambda>s. \<not> force_matched F (ntitle s)) xs)"
  by auto

lemma force_matched_empty: "\<not> force_matched {} nt"
  by (simp add: force_matched_def)

lemma stored_titles: "(\<lambda>s. normalize_title (title s)) = ntitle"
  by (rule ext) (simp add: ntitle_def)

lemma main_eq:
  "main argv stored files =
     sort_songs (preserved argv stored @
       filter (\<lambda>s. \<not> match_found (ntitle ` set (preserved argv stored)) (ntitle s))
              (parsed_songs files))"
proof (cases "''--force'' \<in> set argv")
  case True
  then show ?thesis
    by (simp add: main_def preserved_def import_files_eq sort_songs_def)
next
  case nf: False
  show ?thesis
  proof (cases "stored \<noteq> [] \<and> force_songs_of argv \<noteq> []")
    case True
    have "drop_forced (set (force_songs_of argv)) stored ([], ntitle ` set stored)
            = (preserved argv stored, ntitle ` set (preserved argv stored))"
      using nf by (simp add: drop_forced_eq kept_titles preserved_def)
    then show ?thesis
      using nf True
      by (simp add: main_def stored_titles import_files_eq sort_songs_def)
  next
    case False
    then have "preserved argv stored = stored"
      using nf by (auto simp: preserved_def force_matched_empty)
    then show ?thesis
      using nf False
      by (auto simp: main_def stored_titles import_files_eq sort_songs_def)
  qed
qed


lemma match_found_sublist:
  "match_found (ntitle ` set xs) nt
     \<longleftrightarrow> (\<exists>e\<in>set xs. nt = ntitle e \<or> sublist nt (ntitle e) \<or> sublist (ntitle e) nt)"
  by (auto simp: match_found_def py_in_sublist)

lemma force_matched_sublist:
  "force_matched F nt \<longleftrightarrow> (\<exists>f\<in>F. sublist f nt \<or> sublist nt f)"
  by (simp add: force_matched_def py_in_sublist)

lemma preserved_default:
  "''--force'' \<notin> set argv \<Longrightarrow> ''--force-song'' \<notin> set argv \<Longrightarrow> preserved argv stored = stored"
  by (simp add: preserved_def force_songs_of_none force_matched_empty)

lemma sorted_sort_songs: "sorted (map (\<lambda>s. lower (title s)) (sort_songs xs))"
  by (simp add: sort_songs_def)

lemma mset_sort_songs: "mset (sort_songs xs) = mset xs"
  by (simp add: sort_songs_def)

lemma parse_docA: "parse_chord_file docA ''a.docx'' = Some songA"
  by code_simp


lemma parse_docB: "parse_chord_file docB ''b.docx'' = Some
    \<lparr>title = ''Be Thou'', key = ''C'',
     sections = [\<lparr>type = ''verse'', label = [], lines = [''[C]Be [G]thou my vision'']\<rparr>]\<rparr>"
  by code_simp

lemma parse_docStar: "parse_chord_file docStar ''c.docx'' = Some
    \<lparr>title = ''***'', key = ''C'',
     sections = [\<lparr>type = ''verse'', label = [], lines = [''[C]Be [G]thou my vision'']\<rparr>]\<rparr>"
  by code_simp

text \<open>
  Claim C5.  Without \<open>--force\<close> and \<open>--force-song\<close>, a freshly parsed song is discarded
  exactly when its normalized title equals, contains or is contained in the normalized title
  of a stored song; the catalog written is the stored songs together with the other parsed
  songs, sorted by lower-cased title, so every stored song is in it unchanged.
\<close>

theorem C5_default_reconciliation:
  assumes "''--force'' \<notin> set argv" and "''--force-song'' \<notin> set argv"
  shows "let new = filter (\<lambda>s. \<not> (\<exists>e\<in>set stored. ntitle s = ntitle e
                                   \<or> sublist (ntitle s) (ntitle e) \<or> sublist (ntitle e) (ntitle s)))
                          (parsed_songs files);
             all_songs = main argv stored files
         in all_songs = sort_songs (stored @ new)
            \<and> mset all_songs = mset stored + mset new
            \<and> sorted (map (\<lambda>s. lower (title s)) all_songs)"
  using assms
  by (simp add: main_eq preserved_default match_found_sublist sorted_sort_songs mset_sort_songs)


theorem C5_default_reconciliation_witness:
  "map title (main [''build_chords.py''] [songLive] [(''a.docx'', Some docA), (''b.docx'', Some docB)])
     = [''Amazing Grace (Live)'', ''Be Thou'']"
proof -
  let ?songB = "\<lparr>title = ''Be Thou'', key = ''C'',
     sections = [\<lparr>type = ''verse'', label = [], lines = [''[C]Be [G]thou my vision'']\<rparr>]\<rparr>"
  have h1: "''--force'' \<notin> set [''build_chords.py'']" by simp
  have h2: "''--force-song'' \<notin> set [''build_chords.py'']" by simp
  have e: "main [''build_chords.py''] [songLive] [(''a.docx'', Some docA), (''b.docx'', Some docB)]
        = sort_songs ([songLive] @
            filter (\<lambda>s. \<not> (\<exists>e\<in>set [songLive]. ntitle s = ntitle e
                                   \<or> sublist (ntitle s) (ntitle e) \<or> sublist (ntitle e) (ntitle s)))
              (parsed_songs [(''a.docx'', Some docA), (''b.docx'', Some docB)]))"
    using C5_default_reconciliation [OF h1 h2, of "[songLive]" "[(''a.docx'', Some docA), (''b.docx'', Some docB)]"]
    by (simp add: Let_def)
  have p: "parsed_songs [(''a.docx'', Some docA), (''b.docx'', Some docB)] = [songA, ?songB]"
    by (simp add: parse_docA parse_docB)
  have v: "map title (sort_songs ([songLive] @
            filter (\<lambda>s. \<not> (\<exists>e\<in>set [songLive]. ntitle s = ntitle e
                                   \<or> sublist (ntitle s) (ntitle e) \<or> sublist (ntitle e) (ntitle s)))
              [songA, ?songB]))
               = [''Amazing Grace (Live)'', ''Be Thou'']"
    by code_simp
  show ?thesis
    by (simp only: e p v)
qed

text \<open>
  Claim C6.  Without \<open>--force\<close>, a stored song is dropped from the preserved songs exactly
  when its normalized title contains, or is contained in, one of the normalized
  \<open>--force-song\<close> fragments; the other stored songs are all in the catalog written,
  unchanged, and the freshly parsed songs are compared with the titles of the preserved
  songs only, so that a dropped title no longer blocks its replacement.
\<close>

theorem C6_force_song:
  assumes "''--force'' \<notin> set argv"
  shows "let force_songs = set (force_songs_of argv);
             kept = filter (\<lambda>e. \<not> (\<exists>fs\<in>force_songs. sublist fs (ntitle e) \<or> sublist (ntitle e) fs))
                           stored;
             new = filter (\<lambda>s. \<not> match_found (ntitle ` set kept) (ntitle s)) (parsed_songs files)
         in main argv stored files = sort_songs (kept @ new)
            \<and> (\<forall>e\<in>set stored. e \<in> set kept \<longleftrightarrow>
                   \<not> (\<exists>fs\<in>force_songs. sublist fs (ntitle e) \<or> sublist (ntitle e) fs))
            \<and> (\<forall>e\<in>set kept. e \<in> set (main argv stored files))"
  using assms
  by (simp add: main_eq preserved_def force_matched_sublist Let_def sort_songs_def)

theorem C6_force_song_witness:
  "map title (main [''build_chords.py'', ''--force-song'', ''Grace''] [songLive, songZ] [(''a.docx'', Some docA)])
     = [''Amazing Grace'', ''Zion'']"
proof -
  have h: "''--force'' \<notin> set [''build_chords.py'', ''--force-song'', ''Grace'']" by simp
  have e: "main [''build_chords.py'', ''--force-song'', ''Grace''] [songLive, songZ] [(''a.docx'', Some docA)]
        = (let force_songs = set (force_songs_of [''build_chords.py'', ''--force-song'', ''Grace'']);
             kept = filter (\<lambda>e. \<not> (\<exists>fs\<in>force_songs. sublist fs (ntitle e) \<or> sublist (ntitle e) fs))
                           [songLive, songZ];
             new = filter (\<lambda>s. \<not> match_found (ntitle ` set kept) (ntitle s)) (parsed_songs [(''a.docx'', Some docA)])
           in sort_songs (kept @ new))"
    using C6_force_song [OF h, of "[songLive, songZ]" "[(''a.docx'', Some docA)]"]
    by (simp add: Let_def)
  have p: "parsed_songs [(''a.docx'', Some docA)] = [songA]"
    by (simp add: parse_docA)
  have v: "map title (let force_songs = set (force_songs_of [''build_chords.py'', ''--force-song'', ''Grace'']);
             kept = filter (\<lambda>e. \<not> (\<exists>fs\<in>force_songs. sublist fs (ntitle e) \<or> sublist (ntitle e) fs))
                           [songLive, songZ];
             new = filter (\<lambda>s. \<not> match_found (ntitle ` set kept) (ntitle s)) [songA]
           in sort_songs (kept @ new)) = [''Amazing Grace'', ''Zion'']"
    by code_simp
  show ?thesis
    by (simp only: e p v)
qed

text \<open>
  Claim C9.  Freshly parsed songs are compared with the stored titles only: two parsed
  documents of one batch (at positions \<open>i < j\<close>), neither matching a stored title, are both
  in the catalog written, whatever their titles are, equal titles included.
\<close>

theorem C9_no_dedup_within_batch:
  assumes "''--force'' \<notin> set argv" and "''--force-song'' \<notin> set argv"
    and "i < j" and "j < length (parsed_songs files)"
    and "\<not> match_found (ntitle ` set stored) (ntitle (parsed_songs files ! i))"
    and "\<not> match_found (ntitle ` set stored) (ntitle (parsed_songs files ! j))"
  shows "{#parsed_songs files ! i, parsed_songs files ! j#} \<subseteq># mset (main argv stored files)"
proof -
  let ?ps = "parsed_songs files"
  let ?P = "\<lambda>s. \<not> match_found (ntitle ` set stored) (ntitle s)"
  have "mset (main argv stored files) = mset stored + mset (filter ?P ?ps)"
    using assms(1,2) by (simp add: main_eq preserved_default mset_sort_songs)
  moreover have "{#?ps ! i, ?ps ! j#} \<subseteq># mset (filter ?P ?ps)"
  proof -
    have ij: "i < length ?ps" "i \<noteq> j" using assms(3,4) by auto
    have "?ps = take i ?ps @ ?ps ! i # drop (Suc i) ?ps"
      using ij(1) by (simp add: id_take_nth_drop)
    moreover have "drop (Suc i) ?ps = take (j - Suc i) (drop (Suc i) ?ps) @ ?ps ! j # drop (Suc j) ?ps"
      using assms(3,4) id_take_nth_drop [of "j - Suc i" "drop (Suc i) ?ps"] by simp
    ultimately have "?ps = take i ?ps @ ?ps ! i # take (j - Suc i) (drop (Suc i) ?ps) @ ?ps ! j # drop (Suc j) ?ps"
      by simp
    then have "mset (filter ?P ?ps) =
       mset (filter ?P (take i ?ps @ ?ps ! i # take (j - Suc i) (drop (Suc i) ?ps) @ ?ps ! j # drop (Suc j) ?ps))"
      by simp
    then show ?thesis
      using assms(5,6) by simp
  qed
  ultimately show ?thesis
    by (simp add: subset_mset.add_increasing)
qed


lemma ntitle_songA: "ntitle songA = ''amazinggrace''"
  by code_simp

theorem C9_no_dedup_within_batch_witness:
  "{#songA, songA#} \<subseteq>#
     mset (main [''build_chords.py''] [songZ] [(''a.docx'', Some docA), (''a.docx'', Some docA)])"
proof -
  let ?files = "[(''a.docx'', Some docA), (''a.docx'', Some docA)]"
  have h1: "''--force'' \<notin> set [''build_chords.py'']" by simp
  have h2: "''--force-song'' \<notin> set [''build_chords.py'']" by simp
  have p: "parsed_songs ?files = [songA, songA]"
    by (simp add: parse_docA)
  have i: "(0::nat) < 1" by simp
  have j: "1 < length (parsed_songs ?files)" unfolding p by simp
  have "\<not> match_found (ntitle ` set [songZ]) (ntitle songA)"
    by code_simp
  then have m0: "\<not> match_found (ntitle ` set [songZ]) (ntitle (parsed_songs ?files ! 0))"
    and m1: "\<not> match_found (ntitle ` set [songZ]) (ntitle (parsed_songs ?files ! 1))"
    unfolding p by simp_all
  have "{#parsed_songs ?files ! 0, parsed_songs ?files ! 1#} \<subseteq>#
          mset (main [''build_chords.py''] [songZ] ?files)"
    by (rule C9_no_dedup_within_batch [OF h1 h2 i j m0 m1])
  then show ?thesis
    unfolding p by simp
qed

lemma py_in_Nil: "py_in [] y"
  by (simp add: py_in_sublist)

lemma preserved_titles_nonempty:
  assumes "force_songs_of argv \<noteq> []" and "e \<in> set (preserved argv stored)"
  shows "ntitle e \<noteq> []"
proof
  assume n: "ntitle e = []"
  obtain fs where "fs \<in> set (force_songs_of argv)"
    using assms(1) by (cases "force_songs_of argv") auto
  then have "force_matched (set (force_songs_of argv)) (ntitle e)"
    unfolding force_matched_def n using py_in_Nil by blast
  then show False
    using assms(2) by (auto simp: preserved_def split: if_splits)
qed

theorem C10_counterexample:
  "[songZ] \<noteq> []
   \<and> ntitle \<lparr>title = ''***'', key = ''C'',
        sections = [\<lparr>type = ''verse'', label = [], lines = [''[C]Be [G]thou my vision'']\<rparr>]\<rparr> = []
   \<and> main [''build_chords.py'', ''--force-song'', ''Zion''] [songZ] [(''c.docx'', Some docStar)]
       = [\<lparr>title = ''***'', key = ''C'',
           sections = [\<lparr>type = ''verse'', label = [], lines = [''[C]Be [G]thou my vision'']\<rparr>]\<rparr>]
   \<and> ntitle \<lparr>title = ''!!!'', key = ''C'', sections = []\<rparr> = []
   \<and> main [''build_chords.py'', ''--force-song'', ''Zion'']
          [\<lparr>title = ''!!!'', key = ''C'', sections = []\<rparr>] [(''a.docx'', Some docA)] = [songA]"
proof -
  let ?star = "\<lparr>title = ''***'', key = ''C'',
     sections = [\<lparr>type = ''verse'', label = [], lines = [''[C]Be [G]thou my vision'']\<rparr>]\<rparr>"
  let ?bang = "\<lparr>title = ''!!!'', key = ''C'', sections = []\<rparr>"
  let ?argv = "[''build_chords.py'', ''--force-song'', ''Zion'']"
  have n1: "ntitle ?star = []" by code_simp
  have n2: "ntitle ?bang = []" by code_simp
  have k1: "preserved ?argv [songZ] = []" by code_simp
  have k2: "preserved ?argv [?bang] = []" by code_simp
  have p1: "parsed_songs [(''c.docx'', Some docStar)] = [?star]"
    by (simp add: parse_docStar)
  have p2: "parsed_songs [(''a.docx'', Some docA)] = [songA]"
    by (simp add: parse_docA)
  have a: "main ?argv [songZ] [(''c.docx'', Some docStar)] = [?star]"
    unfolding main_eq k1 p1 by (simp add: match_found_def sort_songs_def)
  have b: "main ?argv [?bang] [(''a.docx'', Some docA)] = [songA]"
    unfolding main_eq k2 p2 by (simp add: match_found_def sort_songs_def)
  show ?thesis using n1 n2 a b by simp
qed

text \<open>
  Claim C10, as amended.  The duplicate test compares a freshly parsed song with the
  stored songs that the run preserves: all of them without \<open>--force\<close> and \<open>--force-song\<close>,
  none with \<open>--force\<close>, and with \<open>--force-song\<close> fragments those matching no fragment, which
  leaves out every stored song whose normalized title is empty.  Whenever at least one stored
  song is preserved, a freshly parsed song whose normalized title is empty is never added
  (the catalog holds as many copies of it as the preserved songs did); and when a preserved
  song has an empty normalized title, no parsed song is added at all.
  (As stated, for every non-empty stored catalog, the claim fails: see
  \<open>C10_counterexample\<close>, where \<open>--force-song Zion\<close> drops the only stored song.)
\<close>

theorem C10_empty_normalized_title:
  "(preserved argv stored \<noteq> [] \<and> ntitle s = [] \<longrightarrow>
      count (mset (main argv stored files)) s = count (mset (preserved argv stored)) s)
   \<and> ((\<exists>e\<in>set (preserved argv stored). ntitle e = []) \<longrightarrow>
         main argv stored files = sort_songs (preserved argv stored))
   \<and> (''--force'' \<notin> set argv \<and> ''--force-song'' \<notin> set argv \<longrightarrow> preserved argv stored = stored)
   \<and> (''--force'' \<in> set argv \<longrightarrow> preserved argv stored = [])
   \<and> (force_songs_of argv \<noteq> [] \<longrightarrow> (\<forall>e\<in>set (preserved argv stored). ntitle e \<noteq> []))"
proof (intro conjI impI ballI)
  let ?kept = "preserved argv stored"
  let ?P = "\<lambda>s. \<not> match_found (ntitle ` set ?kept) (ntitle s)"
  have m: "mset (main argv stored files) = mset ?kept + mset (filter ?P (parsed_songs files))"
    by (simp add: main_eq mset_sort_songs)
  assume a: "?kept \<noteq> [] \<and> ntitle s = []"
  then obtain e where "e \<in> set ?kept" by (cases ?kept) auto
  then have "match_found (ntitle ` set ?kept) (ntitle s)"
    using a by (auto simp: match_found_sublist)
  then show "count (mset (main argv stored files)) s = count (mset ?kept) s"
    by (simp add: m)
next
  let ?kept = "preserved argv stored"
  assume "\<exists>e\<in>set ?kept. ntitle e = []"
  then obtain e where e: "e \<in> set ?kept" "ntitle e = []" by blast
  have "match_found (ntitle ` set ?kept) nt" for nt
    unfolding match_found_sublist using e by (intro bexI [of _ e]) simp_all
  then show "main argv stored files = sort_songs ?kept"
    by (simp add: main_eq)
next
  assume "''--force'' \<notin> set argv \<and> ''--force-song'' \<notin> set argv"
  then show "preserved argv stored = stored"
    by (simp add: preserved_default)
next
  assume "''--force'' \<in> set argv"
  then show "preserved argv stored = []"
    by (simp add: preserved_def)
next
  fix e assume "force_songs_of argv \<noteq> []" and "e \<in> set (preserved argv stored)"
  then show "ntitle e \<noteq> []"
    by (rule preserved_titles_nonempty)
qed

theorem C10_empty_normalized_title_witness:
  "count (mset (main [''build_chords.py'', ''--force-song'', ''Grace''] [songLive, songZ]
                     [(''c.docx'', Some docStar)]))
      \<lparr>title = ''***'', key = ''C'',
        sections = [\<lparr>type = ''verse'', label = [], lines = [''[C]Be [G]thou my vision'']\<rparr>]\<rparr> = 0
   \<and> main [''build_chords.py''] [\<lparr>title = ''!!!'', key = ''C'', sections = []\<rparr>] [(''a.docx'', Some docA)]
       = [\<lparr>title = ''!!!'', key = ''C'', sections = []\<rparr>]"
proof -
  let ?star = "\<lparr>title = ''***'', key = ''C'',
     sections = [\<lparr>type = ''verse'', label = [], lines = [''[C]Be [G]thou my vision'']\<rparr>]\<rparr>"
  let ?bang = "\<lparr>title = ''!!!'', key = ''C'', sections = []\<rparr>"
  let ?argv = "[''build_chords.py'', ''--force-song'', ''Grace'']"
  have k: "preserved ?argv [songLive, songZ] = [songZ]" by code_simp
  have n1: "ntitle ?star = []" by code_simp
  have n2: "ntitle ?bang = []" by code_simp
  have ne: "?star \<noteq> songZ" by (simp add: songZ_def)
  have d: "preserved [''build_chords.py''] [?bang] = [?bang]"
    by (simp add: preserved_default)
  have a: "count (mset (main ?argv [songLive, songZ] [(''c.docx'', Some docStar)])) ?star = 0"
    using C10_empty_normalized_title [of ?argv "[songLive, songZ]" ?star "[(''c.docx'', Some docStar)]"]
      n1 ne unfolding k by simp
  have b: "main [''build_chords.py''] [?bang] [(''a.docx'', Some docA)] = [?bang]"
    using C10_empty_normalized_title [of "[''build_chords.py'']" "[?bang]" ?bang "[(''a.docx'', Some docA)]"]
      n2 unfolding d by (simp add: sort_songs_def)
  show ?thesis using a b by simp
qed

section \<open>The clean-up of sections: proofs\<close>

lemma collapse_blanks_prefix: "\<exists>t. collapse_blanks cleaned ls = cleaned @ t"
  by (induction cleaned ls rule: collapse_blanks.induct) auto

lemma collapse_blanks_successively:
  "successively blank_ok cleaned \<Longrightarrow> successively blank_ok (collapse_blanks cleaned ls)"
proof (induction cleaned ls rule: collapse_blanks.induct)
  case (1 cleaned)
  then show ?case by simp
next
  case (2 cleaned line rest)
  show ?case
  proof (cases "line = [] \<and> cleaned \<noteq> [] \<and> last cleaned = []")
    case True
    then show ?thesis using 2 by simp
  next
    case False
    then have a: "successively blank_ok (cleaned @ [line])"
      using "2.prems" by (auto simp: successively_append_iff blank_ok_def)
    have "collapse_blanks cleaned (line # rest) = collapse_blanks (cleaned @ [line]) rest"
      using False by (simp only: collapse_blanks.simps if_False)
    then show ?thesis using "2.IH"(2) [OF False a] by simp
  qed
qed

lemma collapse_blanks_last:
  "ls \<noteq> [] \<Longrightarrow> last ls \<noteq> [] \<Longrightarrow> last (collapse_blanks cleaned ls) = last ls"
proof (induction cleaned ls rule: collapse_blanks.induct)
  case (1 cleaned)
  then show ?case by simp
next
  case (2 cleaned line rest)
  show ?case
  proof (cases "rest = []")
    case True
    then show ?thesis using "2.prems" by simp
  next
    case False
    then show ?thesis using 2 by auto
  qed
qed

lemma collapse_blanks_hd:
  assumes "ls \<noteq> []"
  shows "collapse_blanks [] ls \<noteq> [] \<and> hd (collapse_blanks [] ls) = hd ls"
proof (cases ls)
  case Nil
  then show ?thesis using assms by simp
next
  case (Cons x xs)
  obtain t where "collapse_blanks [x] xs = [x] @ t"
    using collapse_blanks_prefix by blast
  then show ?thesis using Cons by simp
qed

lemma trim_blanks:
  assumes "t = dropWhile (\<lambda>l. l = []) (rev (dropWhile (\<lambda>l. l = []) (rev ls)))"
    and "t \<noteq> []"
  shows "hd t \<noteq> []" and "last t \<noteq> []"
proof -
  let ?u = "rev (dropWhile (\<lambda>l. l = []) (rev ls))"
  show "hd t \<noteq> []"
    using assms hd_dropWhile [of "\<lambda>l. l = []" ?u] by simp
  have "?u \<noteq> []"
  proof
    assume u: "?u = []"
    have "t = dropWhile (\<lambda>l. l = []) ?u" by (rule assms(1))
    then have "t = []" unfolding u by simp
    then show False using assms(2) by simp
  qed
  then have "last ?u \<noteq> []"
    using hd_dropWhile [of "\<lambda>l. l = []" "rev ls"] by (simp add: last_rev)
  moreover have "last t = last ?u"
    using assms by (simp add: dropWhile_eq_drop)
  ultimately show "last t \<noteq> []" by simp
qed

lemma lines_update: "lines (s\<lparr>lines := x\<rparr>) = x"
  by simp

lemma clean_section_lines:
  assumes "lines (clean_section sect) \<noteq> []"
  shows "hd (lines (clean_section sect)) \<noteq> []"
    and "last (lines (clean_section sect)) \<noteq> []"
    and "successively blank_ok (lines (clean_section sect))"
proof -
  define t where "t = dropWhile (\<lambda>l. l = []) (rev (dropWhile (\<lambda>l. l = []) (rev (lines sect))))"
  have l: "lines (clean_section sect) = collapse_blanks [] t"
    unfolding clean_section_def Let_def t_def by (rule lines_update)
  have ne: "t \<noteq> []"
  proof
    assume e: "t = []"
    have "collapse_blanks [] t = []" unfolding e by simp
    then show False using assms l by simp
  qed
  have t: "hd t \<noteq> []" "last t \<noteq> []"
    using trim_blanks [OF t_def ne] by blast+
  show "hd (lines (clean_section sect)) \<noteq> []"
    using collapse_blanks_hd [OF ne] t by (simp add: l)
  show "last (lines (clean_section sect)) \<noteq> []"
    using collapse_blanks_last [OF ne t(2)] t by (simp add: l)
  show "successively blank_ok (lines (clean_section sect))"
    using collapse_blanks_successively [of "[]" t] by (simp add: l)
qed

lemma finish_sections_lines:
  assumes "sect \<in> set (finish_sections st)"
  shows "lines sect \<noteq> [] \<and> hd (lines sect) \<noteq> [] \<and> last (lines sect) \<noteq> []
         \<and> successively blank_ok (lines sect)"
proof -
  obtain s where "sect = clean_section s" and "lines sect \<noteq> []"
    using assms by (auto simp: finish_sections_def Let_def split: prod.splits)
  then show ?thesis
    using clean_section_lines [of s] by simp
qed

lemma successively_nth:
  "successively P xs \<Longrightarrow> Suc i < length xs \<Longrightarrow> P (xs ! i) (xs ! Suc i)"
proof (induction P xs arbitrary: i rule: successively.induct)
  case (3 P x y xs)
  then show ?case by (cases i) auto
qed auto

lemma parse_chord_file_sections:
  assumes "parse_chord_file text filename = Some song"
  shows "sections song \<noteq> []"
    and "sections song = finish_sections
         (parse_body (snd (body_of (split_on (CHR 0x0A) (normalize_line_breaks text)))) []
            \<lparr>type = ''verse'', label = [], lines = []\<rparr>)"
  using assms
  by (auto simp: parse_chord_file_def Let_def split: if_splits)

text \<open>
  Claim C8.  Every section of a song that \<open>parse_chord_file\<close> returns has at least one
  line, its first and its last line are not blank markers, and no two neighbouring lines
  are both blank markers; a returned song has at least one section, and when the clean-up
  leaves no section \<open>parse_chord_file\<close> returns no song.
\<close>

theorem C8_section_invariants:
  "(parse_chord_file text filename = Some song \<longrightarrow>
      sections song \<noteq> [] \<and>
      (\<forall>sect\<in>set (sections song).
         lines sect \<noteq> [] \<and> hd (lines sect) \<noteq> [] \<and> last (lines sect) \<noteq> [] \<and>
         (\<forall>i. Suc i < length (lines sect) \<longrightarrow>
                \<not> (lines sect ! i = [] \<and> lines sect ! Suc i = []))))
   \<and> (finish_sections
         (parse_body (snd (body_of (split_on (CHR 0x0A) (normalize_line_breaks text)))) []
            \<lparr>type = ''verse'', label = [], lines = []\<rparr>) = [] \<longrightarrow>
       parse_chord_file text filename = None)"
proof (intro conjI impI ballI allI)
  assume p: "parse_chord_file text filename = Some song"
  show "sections song \<noteq> []"
    using parse_chord_file_sections(1) [OF p] .
  fix sect
  assume s: "sect \<in> set (sections song)"
  from s have f: "lines sect \<noteq> [] \<and> hd (lines sect) \<noteq> [] \<and> last (lines sect) \<noteq> []
         \<and> successively blank_ok (lines sect)"
    using finish_sections_lines parse_chord_file_sections(2) [OF p] by simp
  show "lines sect \<noteq> []" "hd (lines sect) \<noteq> []" "last (lines sect) \<noteq> []"
    using f by simp_all
  fix i
  assume "Suc i < length (lines sect)"
  then have "blank_ok (lines sect ! i) (lines sect ! Suc i)"
    using f successively_nth by blast
  then show "\<not> (lines sect ! i = [] \<and> lines sect ! Suc i = [])"
    by (simp add: blank_ok_def)
next
  assume "finish_sections
         (parse_body (snd (body_of (split_on (CHR 0x0A) (normalize_line_breaks text)))) []
            \<lparr>type = ''verse'', label = [], lines = []\<rparr>) = []"
  then show "parse_chord_file text filename = None"
    by (simp add: parse_chord_file_def Let_def)
qed

lemma parse_docC: "parse_chord_file docC ''c.docx'' = Some songC"
  by code_simp

theorem C8_section_invariants_witness:
  "sections songC \<noteq> []
   \<and> hd (lines (hd (sections songC))) \<noteq> []
   \<and> last (lines (hd (sections songC))) \<noteq> []
   \<and> \<not> (lines (hd (sections songC)) ! 1 = [] \<and> lines (hd (sections songC)) ! Suc 1 = [])
   \<and> parse_chord_file ''Sunday C G Am'' ''s.docx'' = None"
proof -
  have f: "finish_sections
         (parse_body (snd (body_of (split_on (CHR 0x0A) (normalize_line_breaks ''Sunday C G Am'')))) []
            \<lparr>type = ''verse'', label = [], lines = []\<rparr>) = []"
    by code_simp
  have m: "hd (sections songC) \<in> set (sections songC)"
    by (simp add: songC_def)
  have n: "Suc 1 < length (lines (hd (sections songC)))"
    by (simp add: songC_def)
  show ?thesis
    using C8_section_invariants [of docC "''c.docx''" songC] parse_docC m n
          C8_section_invariants [of "''Sunday C G Am''" "''s.docx''"] f
    by blast
qed

section \<open>The chord-file threshold: proofs\<close>

lemma fraction_gt_15:
  assumes "0 < n"
  shows "((of_nat c :: rat) / of_nat n > 15 / 100) \<longleftrightarrow> 100 * c > 15 * n"
proof -
  have "((of_nat c :: rat) / of_nat n > 15 / 100) \<longleftrightarrow> (of_nat (15 * n) :: rat) < of_nat (100 * c)"
    using assms by (simp add: field_simps)
  also have "\<dots> \<longleftrightarrow> 15 * n < 100 * c"
    by (rule of_nat_less_iff)
  finally show ?thesis .
qed

lemma is_chord_file_iff:
  "is_chord_file ls \<longleftrightarrow>
     (let non_empty = filter (\<lambda>l. strip l \<noteq> []) ls;
          chord_lines = length (filter (\<lambda>l. is_chord_line l \<or> has_inline_chordpro l) non_empty)
      in non_empty \<noteq> [] \<and> 100 * chord_lines > 15 * length non_empty)"
proof (cases "filter (\<lambda>l. strip l \<noteq> []) ls = []")
  case True
  then show ?thesis by (simp add: is_chord_file_def)
next
  case False
  then have "0 < length (filter (\<lambda>l. strip l \<noteq> []) ls)" by simp
  from fraction_gt_15 [OF this] False show ?thesis
    by (simp add: is_chord_file_def Let_def)
qed

lemma not_chord_file_no_song:
  "\<not> is_chord_file (split_on (CHR 0x0A) (normalize_line_breaks text)) \<Longrightarrow>
     parse_chord_file text filename = None"
  by (simp add: parse_chord_file_def Let_def)

lemma doc15_counts:
  "filter (\<lambda>l. strip l \<noteq> []) doc15 = doc15"
  "length (filter (\<lambda>l. is_chord_line l \<or> has_inline_chordpro l) doc15) = 3"
  "length doc15 = 20"
  "doc15 \<noteq> []"
  by code_simp+

lemma doc16_counts:
  "filter (\<lambda>l. strip l \<noteq> []) doc16 = doc16"
  "length (filter (\<lambda>l. is_chord_line l \<or> has_inline_chordpro l) doc16) = 4"
  "length doc16 = 25"
  "doc16 \<noteq> []"
  by code_simp+

lemma lines_of_doc15: "split_on (CHR 0x0A) (normalize_line_breaks (join [CHR 0x0A] doc15)) = doc15"
  by code_simp

text \<open>
  Claim C3.  \<open>is_chord_file\<close> holds exactly when there is a non-empty line and the
  chord lines and inline-ChordPro lines are more than 15 in 100 of the non-empty lines;
  a text that is not a chord file yields no song.  With 3 such lines among 20 (exactly
  15 percent) the document is not a chord file and yields no song; with 4 among 25
  (16 percent) it is a chord file.
\<close>

theorem C3_chord_file_threshold:
  "(is_chord_file ls \<longleftrightarrow>
     (let non_empty = filter (\<lambda>l. strip l \<noteq> []) ls;
          chord_lines = length (filter (\<lambda>l. is_chord_line l \<or> has_inline_chordpro l) non_empty)
      in non_empty \<noteq> [] \<and> 100 * chord_lines > 15 * length non_empty))
   \<and> (\<not> is_chord_file (split_on (CHR 0x0A) (normalize_line_breaks text)) \<longrightarrow>
        parse_chord_file text filename = None)
   \<and> \<not> is_chord_file doc15
   \<and> parse_chord_file (join [CHR 0x0A] doc15) filename = None
   \<and> is_chord_file doc16"
proof (intro conjI impI)
  show "is_chord_file ls \<longleftrightarrow>
     (let non_empty = filter (\<lambda>l. strip l \<noteq> []) ls;
          chord_lines = length (filter (\<lambda>l. is_chord_line l \<or> has_inline_chordpro l) non_empty)
      in non_empty \<noteq> [] \<and> 100 * chord_lines > 15 * length non_empty)"
    by (rule is_chord_file_iff)
  show "parse_chord_file text filename = None"
    if "\<not> is_chord_file (split_on (CHR 0x0A) (normalize_line_breaks text))"
    using that by (rule not_chord_file_no_song)
  show n15: "\<not> is_chord_file doc15"
    unfolding is_chord_file_iff Let_def doc15_counts(1,2,3) by simp
  show "parse_chord_file (join [CHR 0x0A] doc15) filename = None"
    using n15 by (intro not_chord_file_no_song) (simp add: lines_of_doc15)
  show "is_chord_file doc16"
    unfolding is_chord_file_iff Let_def doc16_counts(1,2,3) by (simp add: doc16_counts(4))
qed

theorem C3_chord_file_threshold_witness:
  "is_chord_file [''C G'', ''la'', ''la'', ''la'', ''la'', ''la'']
   \<and> \<not> is_chord_file [''C G'', ''la'', ''la'', ''la'', ''la'', ''la'', ''la'']
   \<and> parse_chord_file (join [CHR 0x0A] [''C G'', ''la'', ''la'', ''la'', ''la'', ''la'', ''la'']) ''x.docx'' = None"
proof -
  let ?six = "[''C G'', ''la'', ''la'', ''la'', ''la'', ''la'']"
  let ?seven = "[''C G'', ''la'', ''la'', ''la'', ''la'', ''la'', ''la'']"
  have c6: "filter (\<lambda>l. strip l \<noteq> []) ?six = ?six"
    "length (filter (\<lambda>l. is_chord_line l \<or> has_inline_chordpro l) ?six) = 1"
    by code_simp+
  have c7: "filter (\<lambda>l. strip l \<noteq> []) ?seven = ?seven"
    "length (filter (\<lambda>l. is_chord_line l \<or> has_inline_chordpro l) ?seven) = 1"
    by code_simp+
  have l7: "split_on (CHR 0x0A) (normalize_line_breaks (join [CHR 0x0A] ?seven)) = ?seven"
    by code_simp
  have a: "is_chord_file ?six"
    using C3_chord_file_threshold [of ?six] unfolding Let_def c6 by simp
  have b: "\<not> is_chord_file ?seven"
    using C3_chord_file_threshold [of ?seven] unfolding Let_def c7 by simp
  have "\<not> is_chord_file (split_on (CHR 0x0A) (normalize_line_breaks (join [CHR 0x0A] ?seven))) \<longrightarrow>
          parse_chord_file (join [CHR 0x0A] ?seven) ''x.docx'' = None"
    using C3_chord_file_threshold [of ?seven "join [CHR 0x0A] ?seven" "''x.docx''"] by blast
  then have c: "parse_chord_file (join [CHR 0x0A] ?seven) ''x.docx'' = None"
    using b unfolding l7 by blast
  show ?thesis using a b c by simp
qed

section \<open>Key detection: proofs\<close>

lemma fold_if_filter:
  "fold (\<lambda>x acc. if P x then f x acc else acc) xs acc = fold f (filter P xs) acc"
  by (induction xs arbitrary: acc) auto

lemma count_roots_line_fold:
  "count_roots_line line rc =
     fold (\<lambda>r rc. counter_incr rc r) (filter (\<lambda>r. NOTE_TO_INDEX r \<noteq> None) (line_roots line)) rc"
proof -
  have "count_roots_line line rc =
      fold (\<lambda>r rc. if NOTE_TO_INDEX r \<noteq> None then counter_incr rc r else rc) (line_roots line) rc"
    by (simp add: count_roots_line_def line_roots_def fold_map comp_def Let_def)
  then show ?thesis by (simp add: fold_if_filter)
qed

lemma fold_lines:
  "fold count_roots_line ls rc =
     fold (\<lambda>r rc. counter_incr rc r)
       (filter (\<lambda>r. NOTE_TO_INDEX r \<noteq> None) (concat (map line_roots ls))) rc"
  by (induction ls arbitrary: rc) (simp_all add: count_roots_line_fold)

lemma fold_sections:
  "fold (\<lambda>sect rc. fold count_roots_line (lines sect) rc) sects rc =
     fold (\<lambda>r rc. counter_incr rc r) (counted_roots sects) rc"
  by (induction sects arbitrary: rc) (simp_all add: counted_roots_def bracket_roots_def fold_lines)

lemma detect_key_tally:
  "detect_key sects =
     (if tally (counted_roots sects) \<noteq> []
      then fst (first_max (hd (tally (counted_roots sects))) (tl (tally (counted_roots sects))))
      else ''C'')"
  by (simp add: detect_key_def fold_sections tally_def Let_def)

lemma set_firsts [simp]: "set (firsts xs) = set xs"
  by (induction xs) auto

lemma distinct_firsts [simp]: "distinct (firsts xs)"
  by (induction xs) auto

lemma filter_filter_neq: "\<not> P x \<Longrightarrow> filter (\<lambda>y. y \<noteq> x \<and> P y) ys = filter P ys"
  by (induction ys) auto

lemma firsts_filter: "firsts (filter P xs) = filter P (firsts xs)"
proof (induction xs)
  case Nil
  then show ?case by simp
next
  case (Cons x xs)
  have c: "filter (\<lambda>y. y \<noteq> x) (filter P (firsts xs)) = filter P (filter (\<lambda>y. y \<noteq> x) (firsts xs))"
    by (simp add: conj_commute)
  show ?case
  proof (cases "P x")
    case True
    then show ?thesis using Cons c by simp
  next
    case False
    then show ?thesis using Cons by (simp add: filter_filter_neq)
  qed
qed

lemma firsts_before:
  "k \<in> set rs \<Longrightarrow> \<exists>post. firsts rs = firsts (takeWhile (\<lambda>x. x \<noteq> k) rs) @ k # post"
proof (induction rs)
  case Nil
  then show ?case by simp
next
  case (Cons x xs)
  show ?case
  proof (cases "x = k")
    case True
    then show ?thesis by simp
  next
    case False
    with Cons obtain post where "firsts xs = firsts (takeWhile (\<lambda>x. x \<noteq> k) xs) @ k # post"
      by auto
    then show ?thesis using False by simp
  qed
qed

lemma counter_incr_present:
  "distinct (map fst kvs) \<Longrightarrow> k \<in> fst ` set kvs \<Longrightarrow>
     counter_incr kvs k = map (\<lambda>(k', n). (k', if k' = k then n + 1 else n)) kvs"
  by (induction kvs) (auto simp: rev_image_eqI intro!: map_idI [symmetric])

lemma counter_incr_absent:
  "k \<notin> fst ` set kvs \<Longrightarrow> counter_incr kvs k = kvs @ [(k, 1)]"
  by (induction kvs) auto

lemma incr_then_add:
  "map (\<lambda>(k, n). (k, n + count_list xs k)) (map (\<lambda>(k', n). (k', if k' = x then n + 1 else n)) acc)
     = map (\<lambda>(k, n). (k, n + count_list (x # xs) k)) acc"
  by (induction acc) auto

lemma count_list_Cons_other:
  "x \<notin> set ys \<Longrightarrow>
     map (\<lambda>r. (r, count_list xs r)) ys = map (\<lambda>r. (r, count_list (x # xs) r)) ys"
  by (induction ys) auto

lemma fold_counter_incr:
  "distinct (map fst acc) \<Longrightarrow>
     fold (\<lambda>r rc. counter_incr rc r) rs acc =
       map (\<lambda>(k, n). (k, n + count_list rs k)) acc @
       map (\<lambda>r. (r, count_list rs r)) (firsts (filter (\<lambda>r. r \<notin> fst ` set acc) rs))"
proof (induction rs arbitrary: acc)
  case Nil
  then show ?case by simp
next
  case (Cons x xs)
  show ?case
  proof (cases "x \<in> fst ` set acc")
    case True
    let ?acc = "map (\<lambda>(k', n). (k', if k' = x then n + 1 else n)) acc"
    let ?L = "firsts (filter (\<lambda>r. r \<notin> fst ` set acc) xs)"
    have i: "counter_incr acc x = ?acc"
      using Cons.prems True by (rule counter_incr_present)
    have k: "map fst ?acc = map fst acc" by (simp add: comp_def case_prod_beta)
    have d: "distinct (map fst ?acc)" unfolding k by (rule Cons.prems)
    have s: "fst ` set ?acc = fst ` set acc"
      using k by (metis list.set_map)
    have p2: "filter (\<lambda>r. r \<notin> fst ` set acc) (x # xs) = filter (\<lambda>r. r \<notin> fst ` set acc) xs"
      using True by simp
    have "x \<notin> set ?L" using True by simp
    then have p3: "map (\<lambda>r. (r, count_list xs r)) ?L = map (\<lambda>r. (r, count_list (x # xs) r)) ?L"
      by (rule count_list_Cons_other)
    have "fold (\<lambda>r rc. counter_incr rc r) (x # xs) acc = fold (\<lambda>r rc. counter_incr rc r) xs ?acc"
      by (simp add: i)
    also have "\<dots> = map (\<lambda>(k, n). (k, n + count_list xs k)) ?acc @
          map (\<lambda>r. (r, count_list xs r)) (firsts (filter (\<lambda>r. r \<notin> fst ` set ?acc) xs))"
      by (rule Cons.IH [OF d])
    also have "\<dots> = map (\<lambda>(k, n). (k, n + count_list (x # xs) k)) acc @
          map (\<lambda>r. (r, count_list (x # xs) r)) (firsts (filter (\<lambda>r. r \<notin> fst ` set acc) (x # xs)))"
      unfolding s incr_then_add p2 p3 ..
    finally show ?thesis .
  next
    case False
    let ?acc = "acc @ [(x, 1)]"
    let ?M = "firsts (filter (\<lambda>r. r \<notin> fst ` set acc) xs)"
    have i: "counter_incr acc x = ?acc"
      using False by (rule counter_incr_absent)
    have d: "distinct (map fst ?acc)" using Cons.prems False by simp
    have f: "filter (\<lambda>r. r \<notin> fst ` set ?acc) xs = filter (\<lambda>y. y \<noteq> x) (filter (\<lambda>r. r \<notin> fst ` set acc) xs)"
      by (auto intro: filter_cong)
    have "x \<notin> set (filter (\<lambda>y. y \<noteq> x) ?M)" by simp
    then have c: "map (\<lambda>r. (r, count_list xs r)) (filter (\<lambda>y. y \<noteq> x) ?M)
             = map (\<lambda>r. (r, count_list (x # xs) r)) (filter (\<lambda>y. y \<noteq> x) ?M)"
      by (rule count_list_Cons_other)
    have a: "map (\<lambda>(k, n). (k, n + count_list xs k)) acc = map (\<lambda>(k, n). (k, n + count_list (x # xs) k)) acc"
      using False by (intro map_cong) (auto simp: rev_image_eqI)
    have p2: "filter (\<lambda>r. r \<notin> fst ` set acc) (x # xs) = x # filter (\<lambda>r. r \<notin> fst ` set acc) xs"
      using False by simp
    have "fold (\<lambda>r rc. counter_incr rc r) (x # xs) acc = fold (\<lambda>r rc. counter_incr rc r) xs ?acc"
      by (simp add: i)
    also have "\<dots> = map (\<lambda>(k, n). (k, n + count_list xs k)) ?acc @
          map (\<lambda>r. (r, count_list xs r)) (firsts (filter (\<lambda>r. r \<notin> fst ` set ?acc) xs))"
      by (rule Cons.IH [OF d])
    also have "\<dots> = map (\<lambda>(k, n). (k, n + count_list xs k)) acc @ (x, 1 + count_list xs x) #
          map (\<lambda>r. (r, count_list xs r)) (filter (\<lambda>y. y \<noteq> x) ?M)"
      unfolding f firsts_filter by simp
    also have "\<dots> = map (\<lambda>(k, n). (k, n + count_list (x # xs) k)) acc @
          map (\<lambda>r. (r, count_list (x # xs) r)) (firsts (filter (\<lambda>r. r \<notin> fst ` set acc) (x # xs)))"
      unfolding p2 a c by simp
    finally show ?thesis .
  qed
qed

lemma tally_eq: "tally rs = map (\<lambda>r. (r, count_list rs r)) (firsts rs)"
  using fold_counter_incr [of "[]" rs] by (simp add: tally_def)

lemma first_max_spec:
  "\<exists>pre post. best # kvs = pre @ first_max best kvs # post
      \<and> (\<forall>kv\<in>set pre. snd kv < snd (first_max best kvs))
      \<and> (\<forall>kv\<in>set post. snd kv \<le> snd (first_max best kvs))"
proof (induction kvs arbitrary: best)
  case Nil
  have "[best] = [] @ first_max best [] # []
      \<and> (\<forall>kv\<in>set []. snd kv < snd (first_max best []))
      \<and> (\<forall>kv\<in>set []. snd kv \<le> snd (first_max best []))"
    by simp
  then show ?case by blast
next
  case (Cons kv kvs)
  show ?case
  proof (cases "snd kv > snd best")
    case True
    then have e: "first_max best (kv # kvs) = first_max kv kvs" by simp
    obtain pre post where p: "kv # kvs = pre @ first_max kv kvs # post"
      "\<forall>x\<in>set pre. snd x < snd (first_max kv kvs)"
      "\<forall>x\<in>set post. snd x \<le> snd (first_max kv kvs)"
      using Cons.IH [of kv] by blast
    have "snd kv \<le> snd (first_max kv kvs)"
      using p by (cases pre) auto
    with True have "snd best < snd (first_max kv kvs)" by simp
    with p have "best # kv # kvs = (best # pre) @ first_max kv kvs # post
      \<and> (\<forall>x\<in>set (best # pre). snd x < snd (first_max kv kvs))
      \<and> (\<forall>x\<in>set post. snd x \<le> snd (first_max kv kvs))"
      by simp
    then show ?thesis unfolding e by blast
  next
    case False
    then have e: "first_max best (kv # kvs) = first_max best kvs" by simp
    obtain pre post where p: "best # kvs = pre @ first_max best kvs # post"
      "\<forall>x\<in>set pre. snd x < snd (first_max best kvs)"
      "\<forall>x\<in>set post. snd x \<le> snd (first_max best kvs)"
      using Cons.IH [of best] by blast
    show ?thesis
    proof (cases pre)
      case Nil
      with p have f: "first_max best kvs = best" "post = kvs" by auto
      have "best # kv # kvs = [] @ first_max best kvs # (kv # kvs)
        \<and> (\<forall>x\<in>set []. snd x < snd (first_max best kvs))
        \<and> (\<forall>x\<in>set (kv # kvs). snd x \<le> snd (first_max best kvs))"
        using p(3) False f by auto
      then show ?thesis unfolding e by blast
    next
      case (Cons b pre')
      with p have b: "b = best" "kvs = pre' @ first_max best kvs # post" by auto
      have "snd best < snd (first_max best kvs)"
        using p(2) Cons b by auto
      with False have "snd kv < snd (first_max best kvs)" by simp
      with p Cons b have "best # kv # kvs = (best # kv # pre') @ first_max best kvs # post
        \<and> (\<forall>x\<in>set (best # kv # pre'). snd x < snd (first_max best kvs))
        \<and> (\<forall>x\<in>set post. snd x \<le> snd (first_max best kvs))"
        by auto
      then show ?thesis unfolding e by blast
    qed
  qed
qed

lemma NOTE_TO_INDEX_dom:
  "NOTE_TO_INDEX r \<noteq> None \<longleftrightarrow> r \<in> set NOTES_SHARP \<union> set NOTES_FLAT"
  by (simp add: NOTE_TO_INDEX_def NOTES_SHARP_def NOTES_FLAT_def)

lemma counted_roots_notes:
  "counted_roots sects = filter (\<lambda>r. r \<in> set NOTES_SHARP \<union> set NOTES_FLAT) (bracket_roots sects)"
  by (simp only: counted_roots_def NOTE_TO_INDEX_dom)

lemma takeWhile_until: "k \<notin> set a \<Longrightarrow> takeWhile (\<lambda>x. x \<noteq> k) (a @ k # b) = a"
  by (induction a) auto

lemma unique_split:
  assumes "distinct (a @ k # b)" and "a @ k # b = a' @ k # b'"
  shows "a = a'"
proof -
  have 1: "k \<notin> set a" using assms(1) by auto
  have "distinct (a' @ k # b')" using assms by simp
  then have 2: "k \<notin> set a'" by auto
  have "a = takeWhile (\<lambda>x. x \<noteq> k) (a @ k # b)"
    using takeWhile_until [OF 1] by simp
  also have "\<dots> = takeWhile (\<lambda>x. x \<noteq> k) (a' @ k # b')"
    by (simp only: assms(2))
  also have "\<dots> = a'"
    by (rule takeWhile_until [OF 2])
  finally show ?thesis .
qed

lemma key_of_tally:
  assumes "rs \<noteq> []"
  defines "k \<equiv> fst (first_max (hd (tally rs)) (tl (tally rs)))"
  shows "k \<in> set rs"
    and "\<forall>r\<in>set rs. count_list rs r \<le> count_list rs k"
    and "\<forall>r\<in>set (takeWhile (\<lambda>x. x \<noteq> k) rs). count_list rs r < count_list rs k"
proof -
  let ?f = "\<lambda>r. (r, count_list rs r)"
  let ?T = "tally rs"
  have T: "?T = map ?f (firsts rs)" by (rule tally_eq)
  have "firsts rs \<noteq> []" using assms(1) by (cases rs) auto
  then have ne: "?T \<noteq> []" by (simp add: T)
  define m where "m = first_max (hd ?T) (tl ?T)"
  obtain pre post where p: "hd ?T # tl ?T = pre @ m # post"
    "\<forall>kv\<in>set pre. snd kv < snd m" "\<forall>kv\<in>set post. snd kv \<le> snd m"
    unfolding m_def using first_max_spec [of "hd ?T" "tl ?T"] by blast
  have s: "?T = pre @ m # post" using p(1) ne by simp
  have km: "k = fst m" by (simp add: k_def m_def)
  have inT: "kv \<in> set ?T \<Longrightarrow> fst kv \<in> set rs \<and> snd kv = count_list rs (fst kv)" for kv
    by (auto simp: T)
  have "m \<in> set ?T" unfolding s by simp
  then have m: "k \<in> set rs" "snd m = count_list rs k"
    using inT [of m] km by auto
  show "k \<in> set rs" by (rule m(1))
  show "\<forall>r\<in>set rs. count_list rs r \<le> count_list rs k"
  proof
    fix r assume "r \<in> set rs"
    then have "?f r \<in> set ?T" by (simp add: T)
    then have "?f r \<in> set pre \<or> ?f r = m \<or> ?f r \<in> set post" unfolding s by auto
    then show "count_list rs r \<le> count_list rs k"
      using p(2,3) m(2) by (metis less_imp_le order_refl snd_conv)
  qed
  show "\<forall>r\<in>set (takeWhile (\<lambda>x. x \<noteq> k) rs). count_list rs r < count_list rs k"
  proof
    fix r assume r: "r \<in> set (takeWhile (\<lambda>x. x \<noteq> k) rs)"
    have "map fst ?T = firsts rs" by (simp add: T comp_def)
    then have a: "firsts rs = map fst pre @ k # map fst post"
      unfolding s km by simp
    obtain post' where b: "firsts rs = firsts (takeWhile (\<lambda>x. x \<noteq> k) rs) @ k # post'"
      using firsts_before [OF m(1)] by blast
    have d: "distinct (map fst pre @ k # map fst post)"
      using distinct_firsts [of rs] unfolding a .
    have eq: "map fst pre @ k # map fst post = firsts (takeWhile (\<lambda>x. x \<noteq> k) rs) @ k # post'"
      using a b by (rule trans [OF sym])
    have "map fst pre = firsts (takeWhile (\<lambda>x. x \<noteq> k) rs)"
      by (rule unique_split [OF d eq])
    then have "r \<in> set (map fst pre)" using r by simp
    then obtain kv where kv: "kv \<in> set pre" "fst kv = r" by auto
    then have "kv \<in> set ?T" unfolding s by simp
    then have "snd kv = count_list rs r" using inT [of kv] kv by simp
    then show "count_list rs r < count_list rs k"
      using p(2) kv(1) m(2) by auto
  qed
qed

theorem C4_counterexample:
  "bracket_roots songCb = [''Cb'', ''Cb'', ''G'']
   \<and> detect_key songCb = ''G''
   \<and> count_list (bracket_roots songCb) (detect_key songCb) < count_list (bracket_roots songCb) ''Cb''"
  by code_simp

text \<open>
  Claim C4, as amended.  Key detection reads, in every line of every section, each opening
  bracket that is followed by a root (a letter A to G with an optional sharp or flat), and
  tallies the roots that are note names of \<open>NOTE_TO_INDEX\<close> only, which leaves out Cb, Fb,
  E# and B#.  If no root is tallied the key is "C".  Otherwise the key is a tallied root of
  the highest count, and every root first seen before it has a strictly smaller count.  A
  song whose bracketed roots are C, G, C, A, C has the key "C".
  (As stated, for every bracketed chord, the claim fails: see \<open>C4_counterexample\<close>, where
  Cb occurs twice, G once, and the key is "G".)
\<close>

theorem C4_detect_key:
  "(let rs = filter (\<lambda>r. r \<in> set NOTES_SHARP \<union> set NOTES_FLAT) (bracket_roots sects);
        k = detect_key sects
    in (rs = [] \<longrightarrow> k = ''C'')
       \<and> (rs \<noteq> [] \<longrightarrow>
            k \<in> set rs
            \<and> (\<forall>r\<in>set rs. count_list rs r \<le> count_list rs k)
            \<and> (\<forall>r\<in>set (takeWhile (\<lambda>x. x \<noteq> k) rs). count_list rs r < count_list rs k)))
   \<and> (bracket_roots sects = [''C'', ''G'', ''C'', ''A'', ''C''] \<longrightarrow> detect_key sects = ''C'')"
proof (intro conjI)
  let ?rs = "counted_roots sects"
  have e: "?rs = [] \<Longrightarrow> detect_key sects = ''C''"
    by (simp add: detect_key_tally tally_def)
  have n: "?rs \<noteq> [] \<Longrightarrow> detect_key sects = fst (first_max (hd (tally ?rs)) (tl (tally ?rs)))"
    by (cases "counted_roots sects") (simp_all add: detect_key_tally tally_eq)
  show "let rs = filter (\<lambda>r. r \<in> set NOTES_SHARP \<union> set NOTES_FLAT) (bracket_roots sects);
        k = detect_key sects
    in (rs = [] \<longrightarrow> k = ''C'')
       \<and> (rs \<noteq> [] \<longrightarrow>
            k \<in> set rs
            \<and> (\<forall>r\<in>set rs. count_list rs r \<le> count_list rs k)
            \<and> (\<forall>r\<in>set (takeWhile (\<lambda>x. x \<noteq> k) rs). count_list rs r < count_list rs k))"
    unfolding counted_roots_notes [symmetric] Let_def
    using e n key_of_tally [of ?rs] by auto
  show "bracket_roots sects = [''C'', ''G'', ''C'', ''A'', ''C''] \<longrightarrow> detect_key sects = ''C''"
  proof
    assume b: "bracket_roots sects = [''C'', ''G'', ''C'', ''A'', ''C'']"
    have h: "(if tally (filter (\<lambda>r. NOTE_TO_INDEX r \<noteq> None) [''C'', ''G'', ''C'', ''A'', ''C'']) \<noteq> []
           then fst (first_max
                  (hd (tally (filter (\<lambda>r. NOTE_TO_INDEX r \<noteq> None) [''C'', ''G'', ''C'', ''A'', ''C''])))
                  (tl (tally (filter (\<lambda>r. NOTE_TO_INDEX r \<noteq> None) [''C'', ''G'', ''C'', ''A'', ''C'']))))
           else ''C'') = ''C''"
      by code_simp
    show "detect_key sects = ''C''"
      unfolding detect_key_tally counted_roots_def b by (rule h)
  qed
qed

theorem C4_detect_key_witness:
  "detect_key songC4 = ''C'' \<and> detect_key [] = ''C''"
proof -
  have b: "bracket_roots songC4 = [''C'', ''G'', ''C'', ''A'', ''C'']"
    by code_simp
  have a: "detect_key songC4 = ''C''"
    using C4_detect_key [of songC4] b by blast
  have "bracket_roots [] = []" by (simp add: bracket_roots_def)
  then have "detect_key [] = ''C''"
    using C4_detect_key [of "[]"] by (simp add: Let_def)
  with a show ?thesis by simp
qed

section \<open>Section labels: proofs\<close>

lemma concat_map_Nil: "(\<And>x. x \<in> set xs \<Longrightarrow> f x = []) \<Longrightarrow> concat (map f xs) = []"
  by (induction xs) auto

lemma takeWhile_class:
  "\<forall>c\<in>set w. P c \<Longrightarrow> \<not> P d \<Longrightarrow> takeWhile P (w @ d # r) = w"
  by (induction w) auto

lemma grp_rep_until:
  assumes w: "\<forall>c\<in>set w. P c" and n: "n \<le> length w" and d: "\<not> P d"
    and K: "\<And>b' c r' g'. P c \<Longrightarrow> K (b', c # r', g') = []"
  shows "concat (map K (rmatch (Grp i (Rep n P)) (b, w @ d # r, g)))
           = K (rev w @ b, d # r, (i, w) # g)"
proof -
  let ?t = "w @ d # r"
  let ?F = "\<lambda>k. (rev (take k ?t) @ b, drop k ?t, (i, take k ?t) # g)"
  have k: "length (takeWhile P ?t) = length w"
    using takeWhile_class [OF w d] by simp
  have G: "rmatch (Grp i (Rep n P)) (b, ?t, g) = map ?F (rev [n ..< Suc (length w)])"
    by (simp add: k comp_def)
  have r: "rev [n ..< Suc (length w)] = length w # rev [n ..< length w]"
    using n by simp
  have z: "K (?F j) = []" if "j \<in> set (rev [n ..< length w])" for j
  proof -
    from that have j: "j < length w" by simp
    then have "drop j ?t = w ! j # drop (Suc j) w @ d # r"
      by (simp add: Cons_nth_drop_Suc)
    moreover have "P (w ! j)" using w j by simp
    ultimately show ?thesis using K by simp
  qed
  have "concat (map K (map ?F (rev [n ..< Suc (length w)])))
          = K (?F (length w)) @ concat (map (\<lambda>j. K (?F j)) (rev [n ..< length w]))"
    unfolding r by (simp add: comp_def)
  also have "concat (map (\<lambda>j. K (?F j)) (rev [n ..< length w])) = []"
    by (rule concat_map_Nil) (rule z)
  finally show ?thesis unfolding G by simp
qed

lemma lit_mismatch:
  "c \<noteq> d \<Longrightarrow> rmatch (Seq (lit (d # s)) y) (b, c # r, g) = []"
  by simp

lemma loose_match:
  assumes "c \<noteq> []" and "CHR '']'' \<notin> set c"
  shows "re_match SECTION_LABEL_LOOSE_RE (''['' @ c @ '']'' @ rest)
           = Some (rev (''['' @ c @ '']''), rest, [(1, c)])"
proof -
  let ?K = "rmatch (Seq (lit '']'') (seqs []))"
  have w: "\<forall>x\<in>set c. none_of '']'' x" using assms(2) by (auto simp: none_of_def)
  have n: "1 \<le> length c" using assms(1) by (cases c) auto
  have d: "\<not> none_of '']'' CHR '']''" by (simp add: none_of_def)
  have K: "?K (b', x # r', g') = []" if "none_of '']'' x" for b' x r' g'
    using that by (intro lit_mismatch) (auto simp: none_of_def)
  have "concat (map ?K (rmatch (Grp 1 (Rep 1 (none_of '']''))) (''['', c @ CHR '']'' # rest, [])))
          = ?K (rev c @ ''['', CHR '']'' # rest, [(1, c)])"
    by (rule grp_rep_until [where K = ?K and P = "none_of '']''", OF w n d K])
  then show ?thesis
    by (simp add: re_match_def SECTION_LABEL_LOOSE_RE_def)
qed

lemma rep_eos_captures:
  "m \<in> set (concat (map (rmatch (Seq Eos Eps)) (rmatch (Rep n P) (b, r, g)))) \<Longrightarrow> snd (snd m) = g"
  by (auto split: if_splits)

lemma rep_eos_fail:
  assumes "x \<in> set r" and "\<not> P x" and "P (CHR 0x0A)"
  shows "concat (map (rmatch (Seq Eos Eps)) (rmatch (Rep n P) (b, r, g))) = []"
proof (rule concat_map_Nil)
  fix st assume "st \<in> set (rmatch (Rep n P) (b, r, g))"
  then obtain k where k: "k \<le> length (takeWhile P r)" and st: "st = (rev (take k r) @ b, drop k r, g)"
    by (auto simp: less_Suc_eq_le simp del: upt_Suc)
  have "x \<in> set (dropWhile P r)"
    using assms(1,2) by (metis set_append takeWhile_dropWhile_id Un_iff set_takeWhileD)
  moreover have "dropWhile P r = drop (length (takeWhile P r)) r"
    by (rule dropWhile_eq_drop)
  ultimately have "x \<in> set (drop k r)"
    using k by (metis set_drop_subset_set_drop subsetD)
  then have "drop k r \<noteq> []" "drop k r \<noteq> [CHR 0x0A]"
    using assms(2,3) by auto
  then show "rmatch (Seq Eos Eps) st = []"
    by (simp add: st)
qed


lemma strip_nonempty:
  assumes "strip s \<noteq> []"
  shows "\<exists>x\<in>set s. \<not> py_space x"
proof (rule ccontr)
  assume "\<not> (\<exists>x\<in>set s. \<not> py_space x)"
  then have d: "dropWhile py_space s = []" by simp
  have "strip s = []"
    unfolding strip_def lstrip_chars_def rstrip_chars_def d by simp
  then show False using assms by simp
qed

lemma py_space_newline: "py_space (CHR 0x0A)"
  by (simp add: py_space_def one_of_def)

lemma strict_match_group:
  assumes "c \<noteq> []" and "CHR '']'' \<notin> set c"
    and "re_match SECTION_LABEL_RE (''['' @ c @ '']'' @ rest) = Some m"
  shows "group m 1 = c"
proof -
  let ?K = "rmatch (Seq (lit '']'') (seqs [Rep 0 py_space, Eos]))"
  have w: "\<forall>x\<in>set c. none_of '']'' x" using assms(2) by (auto simp: none_of_def)
  have n: "1 \<le> length c" using assms(1) by (cases c) auto
  have d: "\<not> none_of '']'' CHR '']''" by (simp add: none_of_def)
  have K: "?K (b', x # r', g') = []" if "none_of '']'' x" for b' x r' g'
    using that by (intro lit_mismatch) (auto simp: none_of_def)
  have "concat (map ?K (rmatch (Grp 1 (Rep 1 (none_of '']''))) (''['', c @ CHR '']'' # rest, [])))
          = ?K (rev c @ ''['', CHR '']'' # rest, [(1, c)])"
    by (rule grp_rep_until [where K = ?K and P = "none_of '']''", OF w n d K])
  then have e: "rmatch SECTION_LABEL_RE ([], ''['' @ c @ '']'' @ rest, [])
     = concat (map (rmatch (Seq Eos Eps)) (rmatch (Rep 0 py_space) (CHR '']'' # rev c @ ''['', rest, [(1, c)])))"
    by (simp add: SECTION_LABEL_RE_def)
  have "m \<in> set (rmatch SECTION_LABEL_RE ([], ''['' @ c @ '']'' @ rest, []))"
    using assms(3) by (auto simp: re_match_def split: list.splits)
  then have "snd (snd m) = [(1, c)]"
    unfolding e by (rule rep_eos_captures)
  then show ?thesis by (simp add: group_def)
qed

lemma strict_match_fail:
  assumes "c \<noteq> []" and "CHR '']'' \<notin> set c" and "x \<in> set rest" and "\<not> py_space x"
  shows "re_match SECTION_LABEL_RE (''['' @ c @ '']'' @ rest) = None"
proof -
  let ?K = "rmatch (Seq (lit '']'') (seqs [Rep 0 py_space, Eos]))"
  have w: "\<forall>x\<in>set c. none_of '']'' x" using assms(2) by (auto simp: none_of_def)
  have n: "1 \<le> length c" using assms(1) by (cases c) auto
  have d: "\<not> none_of '']'' CHR '']''" by (simp add: none_of_def)
  have K: "?K (b', x # r', g') = []" if "none_of '']'' x" for b' x r' g'
    using that by (intro lit_mismatch) (auto simp: none_of_def)
  have "concat (map ?K (rmatch (Grp 1 (Rep 1 (none_of '']''))) (''['', c @ CHR '']'' # rest, [])))
          = ?K (rev c @ ''['', CHR '']'' # rest, [(1, c)])"
    by (rule grp_rep_until [where K = ?K and P = "none_of '']''", OF w n d K])
  then have e: "rmatch SECTION_LABEL_RE ([], ''['' @ c @ '']'' @ rest, [])
     = concat (map (rmatch (Seq Eos Eps)) (rmatch (Rep 0 py_space) (CHR '']'' # rev c @ ''['', rest, [(1, c)])))"
    by (simp add: SECTION_LABEL_RE_def)
  have "rmatch SECTION_LABEL_RE ([], ''['' @ c @ '']'' @ rest, []) = []"
    unfolding e using assms(3,4) py_space_newline by (rule rep_eos_fail)
  then show ?thesis by (simp add: re_match_def)
qed


lemma chord_bracket_no_label:
  assumes "strip line = ''['' @ c @ '']'' @ rest" and "c \<noteq> []" and "CHR '']'' \<notin> set c"
    and "is_chord_token (strip c)"
  shows "parse_section_label line = None"
proof (cases "re_match SECTION_LABEL_RE (strip line)")
  case None
  then show ?thesis
    using assms(4) loose_match [OF assms(2,3), of rest]
    by (simp add: parse_section_label_def Let_def assms(1) group_def)
next
  case (Some m)
  then have "group m 1 = c"
    using strict_match_group [OF assms(2,3), of rest m] by (simp add: assms(1))
  then show ?thesis
    using assms(4) Some by (simp add: parse_section_label_def Let_def)
qed

lemma loose_label_iff:
  assumes "strip line = ''['' @ c @ '']'' @ rest" and "c \<noteq> []" and "CHR '']'' \<notin> set c"
    and "strip rest \<noteq> []"
  shows "parse_section_label line \<noteq> None \<longleftrightarrow>
           \<not> is_chord_token (strip c)
           \<and> \<not> is_chord_token (rstrip_chars (one_of ''.,;:'') (strip c))
           \<and> length (strip rest) \<le> 10"
proof -
  obtain x where "x \<in> set rest" "\<not> py_space x"
    using strip_nonempty [OF assms(4)] by blast
  then have "re_match SECTION_LABEL_RE (strip line) = None"
    unfolding assms(1) by (rule strict_match_fail [OF assms(2,3)])
  then show ?thesis
    using loose_match [OF assms(2,3), of rest]
    by (auto simp: parse_section_label_def Let_def assms(1) group_def)
qed

text \<open>
  Claim C7.  A line whose stripped form starts with a bracket pair around a chord token
  (the content \<open>c\<close> holds no closing bracket, and \<open>c\<close> stripped is a chord token) is never
  a section label, so \<open>[Am]\<close> is none; \<open>[Chorus]\<close> is the label \<open>('chorus', 'Chorus')\<close>.
  When text follows the closing bracket (the loose match), the line is a label exactly
  when the content is no chord token, with or without trailing punctuation, and the
  trailing text, stripped of the white space around it as the code measures it, has at most
  10 characters.
\<close>

theorem C7_section_label:
  "(strip line = ''['' @ c @ '']'' @ rest \<and> c \<noteq> [] \<and> CHR '']'' \<notin> set c
      \<and> is_chord_token (strip c) \<longrightarrow> parse_section_label line = None)
   \<and> parse_section_label ''[Am]'' = None
   \<and> parse_section_label ''[Chorus]'' = Some (''chorus'', ''Chorus'')
   \<and> (strip line = ''['' @ c @ '']'' @ rest \<and> c \<noteq> [] \<and> CHR '']'' \<notin> set c
        \<and> strip rest \<noteq> [] \<longrightarrow>
        (parse_section_label line \<noteq> None \<longleftrightarrow>
           \<not> is_chord_token (strip c)
           \<and> \<not> is_chord_token (rstrip_chars (one_of ''.,;:'') (strip c))
           \<and> length (strip rest) \<le> 10))"
proof (intro conjI impI)
  show "parse_section_label line = None"
    if "strip line = ''['' @ c @ '']'' @ rest \<and> c \<noteq> [] \<and> CHR '']'' \<notin> set c
      \<and> is_chord_token (strip c)"
    using that chord_bracket_no_label by blast
  show "parse_section_label ''[Am]'' = None"
    by code_simp
  show "parse_section_label ''[Chorus]'' = Some (''chorus'', ''Chorus'')"
    by code_simp
  show "parse_section_label line \<noteq> None \<longleftrightarrow>
           \<not> is_chord_token (strip c)
           \<and> \<not> is_chord_token (rstrip_chars (one_of ''.,;:'') (strip c))
           \<and> length (strip rest) \<le> 10"
    if "strip line = ''['' @ c @ '']'' @ rest \<and> c \<noteq> [] \<and> CHR '']'' \<notin> set c
        \<and> strip rest \<noteq> []"
    using that loose_label_iff by blast
qed

theorem C7_section_label_witness:
  "parse_section_label '' [Am7]  '' = None
   \<and> parse_section_label ''[Am] [G]'' = None
   \<and> parse_section_label ''[Chorus] 1234567890'' \<noteq> None
   \<and> parse_section_label ''[Chorus] 12345678901'' = None"
proof -
  have s1: "strip '' [Am7]  '' = ''['' @ ''Am7'' @ '']'' @ []" by code_simp
  have s2: "strip ''[Am] [G]'' = ''['' @ ''Am'' @ '']'' @ '' [G]''" by code_simp
  have s3: "strip ''[Chorus] 1234567890'' = ''['' @ ''Chorus'' @ '']'' @ '' 1234567890''" by code_simp
  have s4: "strip ''[Chorus] 12345678901'' = ''['' @ ''Chorus'' @ '']'' @ '' 12345678901''" by code_simp
  have c1: "is_chord_token (strip ''Am7'')" "is_chord_token (strip ''Am'')" by code_simp+
  have c2: "\<not> is_chord_token (strip ''Chorus'')"
    "\<not> is_chord_token (rstrip_chars (one_of ''.,;:'') (strip ''Chorus''))" by code_simp+
  have r: "strip '' 1234567890'' \<noteq> []" "length (strip '' 1234567890'') \<le> 10"
    "strip '' 12345678901'' \<noteq> []" "\<not> length (strip '' 12345678901'') \<le> 10" by code_simp+
  have a: "parse_section_label '' [Am7]  '' = None"
    using C7_section_label [of "'' [Am7]  ''" "''Am7''" "[]"] s1 c1 by simp
  have b: "parse_section_label ''[Am] [G]'' = None"
    using C7_section_label [of "''[Am] [G]''" "''Am''" "'' [G]''"] s2 c1 by simp
  have c: "parse_section_label ''[Chorus] 1234567890'' \<noteq> None"
    using C7_section_label [of "''[Chorus] 1234567890''" "''Chorus''" "'' 1234567890''"] s3 c2 r by simp
  have h: "''Chorus'' \<noteq> []" "CHR '']'' \<notin> set ''Chorus''" by simp_all
  have "parse_section_label ''[Chorus] 12345678901'' \<noteq> None \<longleftrightarrow>
           \<not> is_chord_token (strip ''Chorus'')
           \<and> \<not> is_chord_token (rstrip_chars (one_of ''.,;:'') (strip ''Chorus''))
           \<and> length (strip '' 12345678901'') \<le> 10"
    using C7_section_label [of "''[Chorus] 12345678901''" "''Chorus''" "'' 12345678901''"] s4 h r(3)
    by blast
  then have d: "parse_section_label ''[Chorus] 12345678901'' = None"
    using r(4) by blast
  show ?thesis using a b c d by simp
qed

section \<open>The chord grammar: proofs\<close>












































end
